theory Spec2Isabelle
  imports Main "HOL-Library.Word"
begin

section \<open>Solidity value types\<close>

text \<open>
  The contract \<^verbatim>\<open>PrivacyBadgerExtension\<close> is compiled with \<^verbatim>\<open>pragma solidity ^0.8.24\<close>:
  arithmetic on \<^verbatim>\<open>uint256\<close> is checked and reverts with a panic when the result leaves
  the range \<open>0 .. 2^256 - 1\<close>. A \<^verbatim>\<open>uint256\<close> is modelled as a natural number and every
  increment, addition and multiplication of the source carries its range check.
  Gas and memory exhaustion are not modelled.
\<close>

type_synonym uint256 = nat
type_synonym uint32 = "32 word"
type_synonym address = "160 word"
type_synonym bytes32 = "256 word"
type_synonym bytes = "8 word list"

definition max_uint256 :: uint256 where
  "max_uint256 = 2 ^ 256 - 1"

text \<open>
  \<^verbatim>\<open>euint32\<close> and \<^verbatim>\<open>ebool\<close> are the library's ciphertext handles, user-defined value
  types over \<^verbatim>\<open>bytes32\<close>; \<^verbatim>\<open>FHE.toBytes32\<close> unwraps the handle.
\<close>

datatype euint32 = Euint32 bytes32
datatype ebool = Ebool bytes32

fun euint32_toBytes32 :: "euint32 \<Rightarrow> bytes32" where
  "euint32_toBytes32 (Euint32 h) = h"

fun ebool_toBytes32 :: "ebool \<Rightarrow> bytes32" where
  "ebool_toBytes32 (Ebool h) = h"

text \<open>
  A reverted call: a failed \<^verbatim>\<open>require\<close> with its reason string, a panic (checked
  arithmetic, array index out of bounds), a revert inside \<^verbatim>\<open>FHE.checkSignatures\<close>, or
  a revert of \<^verbatim>\<open>abi.decode\<close> on malformed data.
\<close>

datatype error = Error string | Panic | InvalidProof | DecodeError

abbreviation NotFound :: error where
  "NotFound \<equiv> Error ''Rule not found''"

abbreviation NotProcessed :: error where
  "NotProcessed \<equiv> Error ''Not processed''"

abbreviation Unauthorized :: error where
  "Unauthorized \<equiv> Error ''Unauthorized''"

definition checked_add :: "uint256 \<Rightarrow> uint256 \<Rightarrow> error + uint256" where
  "checked_add a b = (if a + b \<le> max_uint256 then Inr (a + b) else Inl Panic)"

definition checked_mul :: "uint256 \<Rightarrow> uint256 \<Rightarrow> error + uint256" where
  "checked_mul a b = (if a * b \<le> max_uint256 then Inr (a * b) else Inl Panic)"

text \<open>\<^verbatim>\<open>xs[index++] = v\<close> on a memory array: the increment and the index are checked.\<close>

definition store_inc :: "'a list \<Rightarrow> uint256 \<Rightarrow> 'a \<Rightarrow> error + ('a list \<times> uint256)" where
  "store_inc xs index v =
     (case checked_add index 1 of
        Inl e \<Rightarrow> Inl e
      | Inr index' \<Rightarrow>
          if index < length xs then Inr (xs[index := v], index') else Inl Panic)"

text \<open>\<^verbatim>\<open>xs[index] = v\<close> on a memory array.\<close>

definition store :: "'a list \<Rightarrow> uint256 \<Rightarrow> 'a \<Rightarrow> error + 'a list" where
  "store xs index v = (if index < length xs then Inr (xs[index := v]) else Inl Panic)"

subsection \<open>ABI decoding of the callback payloads\<close>

text \<open>
  \<^verbatim>\<open>abi.decode(results, (uint32, bool))\<close> reads two 32-byte big-endian words; the
  decoder of Solidity 0.8 reverts when the data is shorter than the head, when the
  first word does not fit 32 bits, or when the second word is neither 0 nor 1.
\<close>

definition word_at :: "bytes \<Rightarrow> nat \<Rightarrow> nat" where
  "word_at bs off = foldl (\<lambda>acc b. acc * 256 + unat b) 0 (take 32 (drop off bs))"

definition abi_decode_uint32_bool :: "bytes \<Rightarrow> error + (uint32 \<times> bool)" where
  "abi_decode_uint32_bool bs =
     (if length bs < 64 then Inl DecodeError
      else if 2 ^ 32 \<le> word_at bs 0 then Inl DecodeError
      else if 1 < word_at bs 32 then Inl DecodeError
      else Inr (of_nat (word_at bs 0), word_at bs 32 = 1))"

definition abi_decode_bool :: "bytes \<Rightarrow> error + bool" where
  "abi_decode_bool bs =
     (if length bs < 32 then Inl DecodeError
      else if 1 < word_at bs 0 then Inl DecodeError
      else Inr (word_at bs 0 = 1))"

section \<open>The external FHE library\<close>

text \<open>
  The library \<^verbatim>\<open>@fhevm/solidity\<close> is not part of the repository. Its functions are
  parameters of the model: the trivial encryptions \<^verbatim>\<open>FHE.asEuint32\<close> and
  \<^verbatim>\<open>FHE.asEbool\<close>, and \<^verbatim>\<open>FHE.checkSignatures\<close>, which reverts unless the proof
  verifies for the request id and the payload. \<^verbatim>\<open>FHE.requestComputation\<close> and
  \<^verbatim>\<open>FHE.requestDecryption\<close> are calls out of the contract; the model records them
  among the actions of a call, with the ciphertexts handed over. The request id they
  return is assigned by the backend; the contract binds it to a local variable that is
  never read.
\<close>

record FHE =
  asEuint32 :: "uint32 \<Rightarrow> euint32"
  asEbool :: "bool \<Rightarrow> ebool"
  checkSignatures :: "uint256 \<Rightarrow> bytes \<Rightarrow> bytes \<Rightarrow> bool"

datatype selector = performMatching_selector | decryptDecision_selector

datatype action =
    RuleAdded uint256 uint256
  | RuleUpdated uint256
  | MatchingRequested address
  | MatchProcessed address
  | RequestComputation "bytes32 list" selector
  | RequestDecryption "bytes32 list" selector

section \<open>Contract storage\<close>

record EncryptedRule =
  encryptedDomainPattern :: euint32
  encryptedPathPattern :: euint32
  encryptedRuleType :: euint32
  timestamp :: uint256

record MatchResult =
  encryptedMatchScore :: euint32
  encryptedShouldBlock :: ebool
  isProcessed :: bool

record storage =
  ruleCount :: uint256
  filteringRules :: "uint256 \<Rightarrow> EncryptedRule"
  matchResults :: "address \<Rightarrow> MatchResult"
  lastUpdateTimestamp :: uint256
  lastSyncTimestamps :: "address \<Rightarrow> uint256"

definition MIN_MATCH_SCORE :: uint32 where
  "MIN_MATCH_SCORE = 80"

text \<open>The storage of the freshly deployed contract: every slot is zero.\<close>

definition deployed :: storage where
  "deployed =
     \<lparr> ruleCount = 0,
       filteringRules = (\<lambda>_. \<lparr> encryptedDomainPattern = Euint32 0, encryptedPathPattern = Euint32 0,
                               encryptedRuleType = Euint32 0, timestamp = 0 \<rparr>),
       matchResults = (\<lambda>_. \<lparr> encryptedMatchScore = Euint32 0, encryptedShouldBlock = Ebool 0,
                             isProcessed = False \<rparr>),
       lastUpdateTimestamp = 0,
       lastSyncTimestamps = (\<lambda>_. 0) \<rparr>"

section \<open>The rule ledger\<close>

text \<open>
  The modifier \<^verbatim>\<open>onlyMaintainer\<close>: its body is the placeholder \<^verbatim>\<open>_;\<close> alone, the
  \<^verbatim>\<open>require\<close> on the caller stands in a comment. The guarded function runs for every
  caller.
\<close>

definition onlyMaintainer :: "address \<Rightarrow> (error + 'a) \<Rightarrow> error + 'a" where
  "onlyMaintainer msg_sender body = body"

definition addFilteringRule ::
  "storage \<Rightarrow> address \<Rightarrow> uint256 \<Rightarrow> euint32 \<Rightarrow> euint32 \<Rightarrow> euint32 \<Rightarrow> error + (storage \<times> action list)"
where
  "addFilteringRule s msg_sender block_timestamp domainPattern pathPattern ruleType =
     onlyMaintainer msg_sender
       (case checked_add (ruleCount s) 1 of
          Inl e \<Rightarrow> Inl e
        | Inr newId \<Rightarrow>
            Inr (s \<lparr> ruleCount := newId,
                     filteringRules := (filteringRules s)
                       (newId := \<lparr> encryptedDomainPattern = domainPattern,
                                   encryptedPathPattern = pathPattern,
                                   encryptedRuleType = ruleType,
                                   timestamp = block_timestamp \<rparr>),
                     lastUpdateTimestamp := block_timestamp \<rparr>,
                 [RuleAdded newId block_timestamp]))"

definition updateFilteringRule ::
  "storage \<Rightarrow> address \<Rightarrow> uint256 \<Rightarrow> uint256 \<Rightarrow> euint32 \<Rightarrow> euint32 \<Rightarrow> euint32
     \<Rightarrow> error + (storage \<times> action list)"
where
  "updateFilteringRule s msg_sender block_timestamp ruleId newDomainPattern newPathPattern newRuleType =
     onlyMaintainer msg_sender
       (if timestamp (filteringRules s ruleId) > 0 then
          Inr (s \<lparr> filteringRules := (filteringRules s)
                     (ruleId := (filteringRules s ruleId)
                        \<lparr> encryptedDomainPattern := newDomainPattern,
                          encryptedPathPattern := newPathPattern,
                          encryptedRuleType := newRuleType,
                          timestamp := block_timestamp \<rparr>),
                   lastUpdateTimestamp := block_timestamp \<rparr>,
               [RuleUpdated ruleId])
        else Inl NotFound)"

section \<open>Matching\<close>

text \<open>
  The loop of \<^verbatim>\<open>requestUrlMatching\<close> over the rule ids \<open>i = 1 .. ruleCount\<close>, writing three
  handles per rule at \<open>index\<close>, \<open>index + 1\<close>, \<open>index + 2\<close>.
\<close>

function payload_loop ::
  "storage \<Rightarrow> uint256 \<Rightarrow> uint256 \<Rightarrow> bytes32 list \<Rightarrow> error + bytes32 list"
where
  "payload_loop s i index ciphertexts =
     (if i \<le> ruleCount s then
        (case store_inc ciphertexts index
                (euint32_toBytes32 (encryptedDomainPattern (filteringRules s i))) of
           Inl e \<Rightarrow> Inl e
         | Inr (c1, index1) \<Rightarrow>
        (case store_inc c1 index1
                (euint32_toBytes32 (encryptedPathPattern (filteringRules s i))) of
           Inl e \<Rightarrow> Inl e
         | Inr (c2, index2) \<Rightarrow>
        (case store_inc c2 index2
                (euint32_toBytes32 (encryptedRuleType (filteringRules s i))) of
           Inl e \<Rightarrow> Inl e
         | Inr (c3, index3) \<Rightarrow>
             if i < max_uint256 then payload_loop s (i + 1) index3 c3 else Inl Panic)))
      else Inr ciphertexts)"
  by pat_completeness auto
termination
  by (relation "measure (\<lambda>(s, i, index, ciphertexts). Suc (ruleCount s) - i)") auto

definition requestUrlMatching ::
  "FHE \<Rightarrow> storage \<Rightarrow> address \<Rightarrow> euint32 \<Rightarrow> euint32 \<Rightarrow> error + (storage \<times> action list)"
where
  "requestUrlMatching fhe s msg_sender encryptedDomain encryptedPath =
     (case checked_mul (ruleCount s) 3 of
        Inl e \<Rightarrow> Inl e
      | Inr n3 \<Rightarrow>
     (case checked_add n3 2 of
        Inl e \<Rightarrow> Inl e
      | Inr n \<Rightarrow>
     (case store (replicate n 0) 0 (euint32_toBytes32 encryptedDomain) of
        Inl e \<Rightarrow> Inl e
      | Inr c0 \<Rightarrow>
     (case store c0 1 (euint32_toBytes32 encryptedPath) of
        Inl e \<Rightarrow> Inl e
      | Inr c1 \<Rightarrow>
     (case payload_loop s 1 2 c1 of
        Inl e \<Rightarrow> Inl e
      | Inr ciphertexts \<Rightarrow>
          Inr (s \<lparr> matchResults := (matchResults s)
                     (msg_sender := \<lparr> encryptedMatchScore = asEuint32 fhe 0,
                                      encryptedShouldBlock = asEbool fhe False,
                                      isProcessed = False \<rparr>) \<rparr>,
               [RequestComputation ciphertexts performMatching_selector,
                MatchingRequested msg_sender]))))))"

definition performMatching ::
  "FHE \<Rightarrow> storage \<Rightarrow> address \<Rightarrow> uint256 \<Rightarrow> uint256 \<Rightarrow> bytes \<Rightarrow> bytes
     \<Rightarrow> error + (storage \<times> action list)"
where
  "performMatching fhe s msg_sender block_timestamp requestId results proof =
     (if \<not> checkSignatures fhe requestId results proof then Inl InvalidProof
      else
        (case abi_decode_uint32_bool results of
           Inl e \<Rightarrow> Inl e
         | Inr (matchScore, shouldBlock) \<Rightarrow>
             Inr (s \<lparr> matchResults := (matchResults s)
                        (msg_sender := \<lparr> encryptedMatchScore = asEuint32 fhe matchScore,
                                         encryptedShouldBlock = asEbool fhe shouldBlock,
                                         isProcessed = True \<rparr>),
                      lastSyncTimestamps := (lastSyncTimestamps s) (msg_sender := block_timestamp) \<rparr>,
                  [MatchProcessed msg_sender])))"

definition getEncryptedMatchResult :: "storage \<Rightarrow> address \<Rightarrow> error + ebool" where
  "getEncryptedMatchResult s msg_sender =
     (if isProcessed (matchResults s msg_sender)
      then Inr (encryptedShouldBlock (matchResults s msg_sender))
      else Inl NotProcessed)"

section \<open>Rule synchronisation\<close>

definition needsUpdate :: "storage \<Rightarrow> address \<Rightarrow> bool" where
  "needsUpdate s msg_sender \<longleftrightarrow> lastSyncTimestamps s msg_sender < lastUpdateTimestamp s"

text \<open>The first loop of \<^verbatim>\<open>getRuleUpdates\<close>: counting the rules newer than the caller's cursor.\<close>

function count_loop :: "storage \<Rightarrow> address \<Rightarrow> uint256 \<Rightarrow> uint256 \<Rightarrow> error + uint256" where
  "count_loop s msg_sender i updateCount =
     (if i \<le> ruleCount s then
        (case (if timestamp (filteringRules s i) > lastSyncTimestamps s msg_sender
               then checked_add updateCount 1 else Inr updateCount) of
           Inl e \<Rightarrow> Inl e
         | Inr updateCount' \<Rightarrow>
             if i < max_uint256 then count_loop s msg_sender (i + 1) updateCount' else Inl Panic)
      else Inr updateCount)"
  by pat_completeness auto
termination
  by (relation "measure (\<lambda>(s, msg_sender, i, updateCount). Suc (ruleCount s) - i)") auto

text \<open>The second loop: filling the four result arrays at \<open>index\<close>.\<close>

type_synonym updates = "bytes32 list \<times> bytes32 list \<times> bytes32 list \<times> uint256 list"

function fill_loop ::
  "storage \<Rightarrow> address \<Rightarrow> uint256 \<Rightarrow> uint256 \<Rightarrow> updates \<Rightarrow> error + updates"
where
  "fill_loop s msg_sender i index (domains, paths, types, timestamps) =
     (if i \<le> ruleCount s then
        (case (if timestamp (filteringRules s i) > lastSyncTimestamps s msg_sender then
                 (case store domains index
                         (euint32_toBytes32 (encryptedDomainPattern (filteringRules s i))) of
                    Inl e \<Rightarrow> Inl e
                  | Inr domains' \<Rightarrow>
                 (case store paths index
                         (euint32_toBytes32 (encryptedPathPattern (filteringRules s i))) of
                    Inl e \<Rightarrow> Inl e
                  | Inr paths' \<Rightarrow>
                 (case store types index
                         (euint32_toBytes32 (encryptedRuleType (filteringRules s i))) of
                    Inl e \<Rightarrow> Inl e
                  | Inr types' \<Rightarrow>
                 (case store timestamps index (timestamp (filteringRules s i)) of
                    Inl e \<Rightarrow> Inl e
                  | Inr timestamps' \<Rightarrow>
                 (case checked_add index 1 of
                    Inl e \<Rightarrow> Inl e
                  | Inr index' \<Rightarrow> Inr (index', domains', paths', types', timestamps'))))))
               else Inr (index, domains, paths, types, timestamps)) of
           Inl e \<Rightarrow> Inl e
         | Inr (index', arrays) \<Rightarrow>
             if i < max_uint256 then fill_loop s msg_sender (i + 1) index' arrays else Inl Panic)
      else Inr (domains, paths, types, timestamps))"
  by pat_completeness auto
termination
  by (relation "measure (\<lambda>(s, msg_sender, i, index, arrays). Suc (ruleCount s) - i)") auto

definition getRuleUpdates :: "storage \<Rightarrow> address \<Rightarrow> error + updates" where
  "getRuleUpdates s msg_sender =
     (case count_loop s msg_sender 1 0 of
        Inl e \<Rightarrow> Inl e
      | Inr updateCount \<Rightarrow>
          fill_loop s msg_sender 1 0
            (replicate updateCount 0, replicate updateCount 0,
             replicate updateCount 0, replicate updateCount 0))"

section \<open>Decryption of the decision\<close>

definition requestDecisionDecryption ::
  "storage \<Rightarrow> address \<Rightarrow> error + (storage \<times> action list)"
where
  "requestDecisionDecryption s msg_sender =
     (if isProcessed (matchResults s msg_sender) then
        (case store (replicate 1 0) 0
                (ebool_toBytes32 (encryptedShouldBlock (matchResults s msg_sender))) of
           Inl e \<Rightarrow> Inl e
         | Inr ciphertexts \<Rightarrow> Inr (s, [RequestDecryption ciphertexts decryptDecision_selector]))
      else Inl NotProcessed)"

definition decryptDecision ::
  "FHE \<Rightarrow> storage \<Rightarrow> address \<Rightarrow> uint256 \<Rightarrow> bytes \<Rightarrow> bytes \<Rightarrow> error + (storage \<times> action list)"
where
  "decryptDecision fhe s msg_sender requestId cleartexts proof =
     (if \<not> checkSignatures fhe requestId cleartexts proof then Inl InvalidProof
      else
        (case abi_decode_bool cleartexts of
           Inl e \<Rightarrow> Inl e
         | Inr shouldBlock \<Rightarrow> Inr (s, [])))"

section \<open>Transactions\<close>

text \<open>
  A transaction calls one state-changing function of the contract; a reverted call
  leaves the storage as it was. The views (\<open>getEncryptedMatchResult\<close>, \<open>needsUpdate\<close>,
  \<open>getRuleUpdates\<close> and the getters of the public state variables) read a storage and
  are not transactions.
\<close>

datatype call =
    AddFilteringRule euint32 euint32 euint32
  | UpdateFilteringRule uint256 euint32 euint32 euint32
  | RequestUrlMatching euint32 euint32
  | PerformMatching uint256 bytes bytes
  | RequestDecisionDecryption
  | DecryptDecision uint256 bytes bytes

record tx =
  tx_sender :: address
  tx_timestamp :: uint256
  tx_call :: call

fun dispatch :: "FHE \<Rightarrow> storage \<Rightarrow> address \<Rightarrow> uint256 \<Rightarrow> call \<Rightarrow> error + (storage \<times> action list)" where
  "dispatch fhe s a t (AddFilteringRule d p r) = addFilteringRule s a t d p r"
| "dispatch fhe s a t (UpdateFilteringRule i d p r) = updateFilteringRule s a t i d p r"
| "dispatch fhe s a t (RequestUrlMatching d p) = requestUrlMatching fhe s a d p"
| "dispatch fhe s a t (PerformMatching r b p) = performMatching fhe s a t r b p"
| "dispatch fhe s a t RequestDecisionDecryption = requestDecisionDecryption s a"
| "dispatch fhe s a t (DecryptDecision r b p) = decryptDecision fhe s a r b p"

definition exec :: "FHE \<Rightarrow> storage \<Rightarrow> tx \<Rightarrow> storage \<times> (error + action list)" where
  "exec fhe s x =
     (case dispatch fhe s (tx_sender x) (tx_timestamp x) (tx_call x) of
        Inl e \<Rightarrow> (s, Inl e)
      | Inr (s', acts) \<Rightarrow> (s', Inr acts))"

text \<open>A run of transactions: the final storage and the receipt of every transaction.\<close>

fun run :: "FHE \<Rightarrow> storage \<Rightarrow> tx list \<Rightarrow> storage \<times> (tx \<times> (error + action list)) list" where
  "run fhe s [] = (s, [])"
| "run fhe s (x # xs) =
     (case exec fhe s x of
        (s', r) \<Rightarrow> (case run fhe s' xs of (s'', rs) \<Rightarrow> (s'', (x, r) # rs)))"

section \<open>Vocabulary of the properties\<close>

text \<open>The rule ids a loop still has to visit when its counter stands at \<open>i\<close>.\<close>

definition rule_ids :: "storage \<Rightarrow> uint256 \<Rightarrow> uint256 list" where
  "rule_ids s i = [i..<Suc (ruleCount s)]"

text \<open>Rule \<open>i\<close> is newer than the cursor of \<open>a\<close>: the test of both loops of \<open>getRuleUpdates\<close>.\<close>

definition newer :: "storage \<Rightarrow> address \<Rightarrow> uint256 \<Rightarrow> bool" where
  "newer s a i \<longleftrightarrow> lastSyncTimestamps s a < timestamp (filteringRules s i)"

text \<open>The three handles of rule \<open>i\<close>, in the order the payload holds them.\<close>

definition rule_fields :: "storage \<Rightarrow> uint256 \<Rightarrow> bytes32 list" where
  "rule_fields s i =
     [euint32_toBytes32 (encryptedDomainPattern (filteringRules s i)),
      euint32_toBytes32 (encryptedPathPattern (filteringRules s i)),
      euint32_toBytes32 (encryptedRuleType (filteringRules s i))]"

text \<open>An array whose cells from \<open>index\<close> on have been overwritten with \<open>vs\<close>.\<close>

definition filled :: "'a list \<Rightarrow> nat \<Rightarrow> 'a list \<Rightarrow> 'a list" where
  "filled xs index vs = take index xs @ vs @ drop (index + length vs) xs"

text \<open>
  The ids the ledger hands out are visible in the \<open>RuleAdded\<close> events of the receipts;
  a reverted transaction emits nothing.
\<close>

fun rule_added_ids :: "action list \<Rightarrow> uint256 list" where
  "rule_added_ids [] = []"
| "rule_added_ids (RuleAdded i t # acts) = i # rule_added_ids acts"
| "rule_added_ids (_ # acts) = rule_added_ids acts"

definition receipt_ids :: "error + action list \<Rightarrow> uint256 list" where
  "receipt_ids r = (case r of Inl e \<Rightarrow> [] | Inr acts \<Rightarrow> rule_added_ids acts)"

definition assigned_ids :: "(tx \<times> (error + action list)) list \<Rightarrow> uint256 list" where
  "assigned_ids rs = concat (map (\<lambda>xr. receipt_ids (snd xr)) rs)"

fun is_AddFilteringRule :: "call \<Rightarrow> bool" where
  "is_AddFilteringRule (AddFilteringRule d p r) = True"
| "is_AddFilteringRule _ = False"

fun is_PerformMatching :: "call \<Rightarrow> bool" where
  "is_PerformMatching (PerformMatching r b p) = True"
| "is_PerformMatching _ = False"

definition successful_add :: "tx \<times> (error + action list) \<Rightarrow> bool" where
  "successful_add xr \<longleftrightarrow> is_AddFilteringRule (tx_call (fst xr)) \<and> \<not> isl (snd xr)"

text \<open>No timestamp the ledger stores is later than \<open>T\<close>.\<close>

definition ledger_upto :: "storage \<Rightarrow> uint256 \<Rightarrow> bool" where
  "ledger_upto s T \<longleftrightarrow>
     lastUpdateTimestamp s \<le> T \<and> (\<forall>i. timestamp (filteringRules s i) \<le> T)"

text \<open>The keys of \<open>filteringRules\<close> outside \<open>1 .. ruleCount\<close> hold the zero rule.\<close>

definition empty_outside :: "storage \<Rightarrow> bool" where
  "empty_outside s \<longleftrightarrow>
     (\<forall>j. j = 0 \<or> ruleCount s < j \<longrightarrow> filteringRules s j = filteringRules deployed j)"

text \<open>Every key in \<open>1 .. ruleCount\<close> holds a rule with a timestamp.\<close>

definition occupied_inside :: "storage \<Rightarrow> bool" where
  "occupied_inside s \<longleftrightarrow> (\<forall>j \<in> {1..ruleCount s}. 0 < timestamp (filteringRules s j))"

section \<open>A concrete environment for the examples\<close>

text \<open>
  A toy backend: the handle of a trivial encryption is the value itself, and a proof
  verifies when it is the request id (one byte) followed by the payload it signs.
\<close>

definition toy_fhe :: FHE where
  "toy_fhe = \<lparr> asEuint32 = (\<lambda>w. Euint32 (ucast w)),
               asEbool = (\<lambda>b. Ebool (if b then 1 else 0)),
               checkSignatures = (\<lambda>requestId results proof. proof = of_nat requestId # results) \<rparr>"

definition encode_uint32_bool :: "8 word \<Rightarrow> bool \<Rightarrow> bytes" where
  "encode_uint32_bool n b = replicate 31 0 @ [n] @ replicate 31 0 @ [if b then 1 else 0]"

definition encode_bool :: "bool \<Rightarrow> bytes" where
  "encode_bool b = replicate 31 0 @ [if b then 1 else 0]"

definition alice :: address where
  "alice = 0xA11CE"

definition bob :: address where
  "bob = 0xB0B"


definition call_at :: "address \<Rightarrow> uint256 \<Rightarrow> call \<Rightarrow> tx" where
  "call_at a t c = \<lparr> tx_sender = a, tx_timestamp = t, tx_call = c \<rparr>"

text \<open>
  Three rules added at the block times 100, 200 and 300; \<open>bob\<close> completes a match at
  block time 150, between the first and the second.
\<close>

definition three_rules :: "tx list" where
  "three_rules =
     [call_at alice 100 (AddFilteringRule (Euint32 11) (Euint32 12) (Euint32 13)),
      call_at bob 150 (PerformMatching 7 (encode_uint32_bool 95 True) (7 # encode_uint32_bool 95 True)),
      call_at alice 200 (AddFilteringRule (Euint32 21) (Euint32 22) (Euint32 23)),
      call_at alice 300 (AddFilteringRule (Euint32 31) (Euint32 32) (Euint32 33))]"

text \<open>
  \<open>bob\<close> requests a match twice before any callback arrives; the backend has numbered
  the two requests 1 and 2. The callback of the first request carries the id 1, the
  result (10, true) and a proof that verifies for them.
\<close>

definition two_requests :: "tx list" where
  "two_requests =
     [call_at bob 10 (RequestUrlMatching (Euint32 1) (Euint32 2)),
      call_at bob 20 (RequestUrlMatching (Euint32 3) (Euint32 4))]"

definition late_callback :: tx where
  "late_callback =
     call_at bob 30 (PerformMatching 1 (encode_uint32_bool 10 True) (1 # encode_uint32_bool 10 True))"

text \<open>The ledger after the one rule \<open>alice\<close> adds at block time 100.\<close>

definition one_rule :: storage where
  "one_rule = fst (exec toy_fhe deployed
                (call_at alice 100 (AddFilteringRule (Euint32 11) (Euint32 12) (Euint32 13))))"

text \<open>
  A history of the ledger: three additions, an update of rule 1 and an update of the
  unknown rule 5 in between.
\<close>

definition ledger_history :: "tx list" where
  "ledger_history =
     [call_at alice 100 (AddFilteringRule (Euint32 11) (Euint32 12) (Euint32 13)),
      call_at bob 110 (UpdateFilteringRule 1 (Euint32 14) (Euint32 15) (Euint32 16)),
      call_at bob 120 (AddFilteringRule (Euint32 21) (Euint32 22) (Euint32 23)),
      call_at alice 130 (UpdateFilteringRule 5 (Euint32 51) (Euint32 52) (Euint32 53)),
      call_at alice 140 (AddFilteringRule (Euint32 31) (Euint32 32) (Euint32 33))]"



section \<open>The loops\<close>

declare payload_loop.simps [simp del] count_loop.simps [simp del] fill_loop.simps [simp del]

lemma rule_ids_Cons: "i \<le> ruleCount s \<Longrightarrow> rule_ids s i = i # rule_ids s (i + 1)"
  by (simp add: rule_ids_def upt_conv_Cons del: upt_Suc)

lemma rule_ids_Nil: "\<not> i \<le> ruleCount s \<Longrightarrow> rule_ids s i = []"
  by (simp add: rule_ids_def)

lemma count_loop_eq:
  assumes "ruleCount s < max_uint256"
    and "c + length (filter (newer s a) (rule_ids s i)) \<le> max_uint256"
  shows "count_loop s a i c = Inr (c + length (filter (newer s a) (rule_ids s i)))"
  using assms
proof (induction s a i c rule: count_loop.induct)
  case (1 s a i c)
  show ?case
  proof (cases "i \<le> ruleCount s")
    case False
    then show ?thesis by (simp add: count_loop.simps rule_ids_Nil)
  next
    case True
    note ile = True
    have lt: "i < max_uint256" using ile "1.prems"(1) by simp
    note up = rule_ids_Cons [OF ile]
    show ?thesis
    proof (cases "newer s a i")
      case True
      then have ts: "lastSyncTimestamps s a < timestamp (filteringRules s i)"
        by (simp add: newer_def)
      have c1: "checked_add c 1 = Inr (c + 1)"
        using "1.prems"(2) True up by (simp add: checked_add_def)
      have "count_loop s a (i + 1) (c + 1) =
              Inr (c + 1 + length (filter (newer s a) (rule_ids s (i + 1))))"
        using "1.IH" [OF ile _ lt, of "c + 1"] ts c1 "1.prems" True up by simp
      then show ?thesis
        using ile ts c1 lt True up by (subst count_loop.simps) simp
    next
      case False
      then have ts: "\<not> lastSyncTimestamps s a < timestamp (filteringRules s i)"
        by (simp add: newer_def)
      have "count_loop s a (i + 1) c =
              Inr (c + length (filter (newer s a) (rule_ids s (i + 1))))"
        using "1.IH" [OF ile _ lt, of c] ts "1.prems" False up by simp
      then show ?thesis
        using ile ts lt False up by (subst count_loop.simps) simp
    qed
  qed
qed

lemma filled_Nil: "filled xs index [] = xs"
  by (simp add: filled_def)

lemma filled_Cons:
  "index < length xs \<Longrightarrow> filled (xs[index := v]) (Suc index) vs = filled xs index (v # vs)"
  by (simp add: filled_def take_Suc_conv_app_nth)

lemma filled_all: "length vs = length xs \<Longrightarrow> filled xs 0 vs = vs"
  by (simp add: filled_def)


lemma store_inc_ok:
  "index < length xs \<Longrightarrow> length xs \<le> max_uint256 \<Longrightarrow>
     store_inc xs index v = Inr (xs[index := v], Suc index)"
  by (simp add: store_inc_def checked_add_def)

lemma filled_Cons3:
  assumes "index + 3 \<le> length xs"
  shows "filled (xs[index := a, Suc index := b, Suc (Suc index) := c]) (index + 3) vs
           = filled xs index (a # b # c # vs)"
proof -
  have "filled (xs[index := a, Suc index := b, Suc (Suc index) := c]) (Suc (Suc (Suc index))) vs
          = filled (xs[index := a, Suc index := b]) (Suc (Suc index)) (c # vs)"
    using assms by (simp add: filled_Cons)
  also have "\<dots> = filled (xs[index := a]) (Suc index) (b # c # vs)"
    using assms by (simp add: filled_Cons)
  also have "\<dots> = filled xs index (a # b # c # vs)"
    using assms by (simp add: filled_Cons)
  finally show ?thesis by (simp add: numeral_3_eq_3)
qed

lemma payload_done: "\<not> i \<le> ruleCount s \<Longrightarrow> payload_loop s i index cs = Inr cs"
  by (simp add: payload_loop.simps)

lemma payload_step:
  assumes "i \<le> ruleCount s" "i < max_uint256" "index + 3 \<le> length cs" "length cs \<le> max_uint256"
  shows "payload_loop s i index cs =
           payload_loop s (i + 1) (index + 3)
             (cs[index := euint32_toBytes32 (encryptedDomainPattern (filteringRules s i)),
                 Suc index := euint32_toBytes32 (encryptedPathPattern (filteringRules s i)),
                 Suc (Suc index) := euint32_toBytes32 (encryptedRuleType (filteringRules s i))])"
  using assms by (subst payload_loop.simps) (simp add: store_inc_ok numeral_3_eq_3)

lemma payload_loop_eq:
  assumes "ruleCount s < max_uint256" "length cs \<le> max_uint256"
    and "index + 3 * length (rule_ids s i) \<le> length cs"
  shows "payload_loop s i index cs = Inr (filled cs index (concat (map (rule_fields s) (rule_ids s i))))"
  using assms
proof (induction k \<equiv> "Suc (ruleCount s) - i" arbitrary: i index cs)
  case 0
  then have "\<not> i \<le> ruleCount s" by simp
  then show ?case by (simp add: payload_done rule_ids_Nil filled_Nil)
next
  case (Suc k)
  then have ile: "i \<le> ruleCount s" by simp
  note up = rule_ids_Cons [OF ile]
  have lt: "i < max_uint256" using ile Suc.prems(1) by simp
  have room: "index + 3 \<le> length cs" using Suc.prems(3) up by simp
  let ?cs = "cs[index := euint32_toBytes32 (encryptedDomainPattern (filteringRules s i)),
                Suc index := euint32_toBytes32 (encryptedPathPattern (filteringRules s i)),
                Suc (Suc index) := euint32_toBytes32 (encryptedRuleType (filteringRules s i))]"
  have "payload_loop s (i + 1) (index + 3) ?cs =
          Inr (filled ?cs (index + 3) (concat (map (rule_fields s) (rule_ids s (i + 1)))))"
    using Suc.hyps(2) Suc.prems up by (intro Suc.hyps(1)) simp_all
  also have "\<dots> = Inr (filled cs index (concat (map (rule_fields s) (rule_ids s i))))"
    using filled_Cons3 [OF room] by (simp add: up rule_fields_def)
  finally show ?case
    by (simp add: payload_step [OF ile lt room Suc.prems(2)])
qed


lemma length_rule_ids: "length (rule_ids s i) = Suc (ruleCount s) - i"
  by (simp add: rule_ids_def del: upt_Suc)

lemma filled_prefix2:
  assumes "length xs = 2 + length vs"
  shows "filled (xs[0 := a, Suc 0 := b]) 2 vs = a # b # vs"
proof -
  have "filled (xs[0 := a, Suc 0 := b]) (Suc (Suc 0)) vs = filled (xs[0 := a]) (Suc 0) (b # vs)"
    using assms by (simp add: filled_Cons)
  also have "\<dots> = filled xs 0 (a # b # vs)"
    using assms by (simp add: filled_Cons)
  also have "\<dots> = a # b # vs"
    using assms by (simp add: filled_all)
  finally show ?thesis by (simp add: numeral_2_eq_2)
qed

lemma requestUrlMatching_eq:
  assumes "ruleCount s * 3 + 2 \<le> max_uint256"
  shows "requestUrlMatching fhe s a d p =
           Inr (s \<lparr> matchResults := (matchResults s)
                      (a := \<lparr> encryptedMatchScore = asEuint32 fhe 0,
                              encryptedShouldBlock = asEbool fhe False,
                              isProcessed = False \<rparr>) \<rparr>,
                [RequestComputation
                   (euint32_toBytes32 d # euint32_toBytes32 p
                      # concat (map (rule_fields s) (rule_ids s 1)))
                   performMatching_selector,
                 MatchingRequested a])"
proof -
  let ?n = "ruleCount s * 3 + 2"
  let ?cs = "(replicate ?n (0::bytes32))[0 := euint32_toBytes32 d, Suc 0 := euint32_toBytes32 p]"
  let ?vs = "concat (map (rule_fields s) (rule_ids s 1))"
  have len: "length ?vs = 3 * ruleCount s"
    by (simp add: length_concat o_def rule_fields_def sum_list_triv length_rule_ids)
  have m: "checked_mul (ruleCount s) 3 = Inr (ruleCount s * 3)"
    using assms by (simp add: checked_mul_def)
  have ad: "checked_add (ruleCount s * 3) 2 = Inr ?n"
    using assms by (simp add: checked_add_def)
  have s0: "store (replicate ?n (0::bytes32)) 0 (euint32_toBytes32 d)
              = Inr ((replicate ?n 0)[0 := euint32_toBytes32 d])"
    by (simp add: store_def)
  have s1: "store ((replicate ?n (0::bytes32))[0 := euint32_toBytes32 d]) 1 (euint32_toBytes32 p)
              = Inr ?cs"
    by (simp add: store_def)
  have "payload_loop s 1 2 ?cs = Inr (filled ?cs 2 ?vs)"
    using assms by (intro payload_loop_eq) (simp_all add: length_rule_ids)
  also have "filled ?cs 2 ?vs = euint32_toBytes32 d # euint32_toBytes32 p # ?vs"
    using len by (intro filled_prefix2) simp
  finally have lp: "payload_loop s 1 2 ?cs = Inr (euint32_toBytes32 d # euint32_toBytes32 p # ?vs)" .
  show ?thesis
    using m ad s0 s1 lp by (simp add: requestUrlMatching_def)
qed

lemma requestUrlMatching_overflow:
  "\<not> ruleCount s * 3 + 2 \<le> max_uint256 \<Longrightarrow> requestUrlMatching fhe s a d p = Inl Panic"
  by (simp add: requestUrlMatching_def checked_mul_def checked_add_def)

lemma fill_done: "\<not> i \<le> ruleCount s \<Longrightarrow> fill_loop s a i index (ds, ps, ts, tms) = Inr (ds, ps, ts, tms)"
  by (simp add: fill_loop.simps)

lemma fill_step_older:
  "i \<le> ruleCount s \<Longrightarrow> i < max_uint256 \<Longrightarrow> \<not> newer s a i \<Longrightarrow>
     fill_loop s a i index (ds, ps, ts, tms) = fill_loop s a (i + 1) index (ds, ps, ts, tms)"
  by (subst fill_loop.simps) (simp add: newer_def)

lemma fill_step_newer:
  assumes "i \<le> ruleCount s" "i < max_uint256" "newer s a i"
    and "index < length ds" "index < length ps" "index < length ts" "index < length tms"
    and "index < max_uint256"
  shows "fill_loop s a i index (ds, ps, ts, tms) =
           fill_loop s a (i + 1) (Suc index)
             (ds[index := euint32_toBytes32 (encryptedDomainPattern (filteringRules s i))],
              ps[index := euint32_toBytes32 (encryptedPathPattern (filteringRules s i))],
              ts[index := euint32_toBytes32 (encryptedRuleType (filteringRules s i))],
              tms[index := timestamp (filteringRules s i)])"
  using assms by (subst fill_loop.simps) (simp add: newer_def store_def checked_add_def)

lemma fill_loop_eq:
  assumes "ruleCount s < max_uint256"
    and "length ds = n" "length ps = n" "length ts = n" "length tms = n" "n \<le> max_uint256"
    and "index + length (filter (newer s a) (rule_ids s i)) \<le> n"
  shows "fill_loop s a i index (ds, ps, ts, tms) =
           Inr (filled ds index (map (\<lambda>j. euint32_toBytes32 (encryptedDomainPattern (filteringRules s j)))
                                   (filter (newer s a) (rule_ids s i))),
                filled ps index (map (\<lambda>j. euint32_toBytes32 (encryptedPathPattern (filteringRules s j)))
                                   (filter (newer s a) (rule_ids s i))),
                filled ts index (map (\<lambda>j. euint32_toBytes32 (encryptedRuleType (filteringRules s j)))
                                   (filter (newer s a) (rule_ids s i))),
                filled tms index (map (\<lambda>j. timestamp (filteringRules s j))
                                   (filter (newer s a) (rule_ids s i))))"
  using assms
proof (induction k \<equiv> "Suc (ruleCount s) - i" arbitrary: i index ds ps ts tms)
  case 0
  then have "\<not> i \<le> ruleCount s" by simp
  then show ?case by (simp add: fill_done rule_ids_Nil filled_Nil)
next
  case (Suc k)
  then have ile: "i \<le> ruleCount s" by simp
  note up = rule_ids_Cons [OF ile]
  have lt: "i < max_uint256" using ile Suc.prems(1) by simp
  show ?case
  proof (cases "newer s a i")
    case False
    have "fill_loop s a i index (ds, ps, ts, tms) = fill_loop s a (i + 1) index (ds, ps, ts, tms)"
      using ile lt False by (rule fill_step_older)
    also have "\<dots> = Inr (filled ds index (map (\<lambda>j. euint32_toBytes32 (encryptedDomainPattern (filteringRules s j)))
                                   (filter (newer s a) (rule_ids s (i + 1)))),
                filled ps index (map (\<lambda>j. euint32_toBytes32 (encryptedPathPattern (filteringRules s j)))
                                   (filter (newer s a) (rule_ids s (i + 1)))),
                filled ts index (map (\<lambda>j. euint32_toBytes32 (encryptedRuleType (filteringRules s j)))
                                   (filter (newer s a) (rule_ids s (i + 1)))),
                filled tms index (map (\<lambda>j. timestamp (filteringRules s j))
                                   (filter (newer s a) (rule_ids s (i + 1)))))"
      using Suc.hyps(2) Suc.prems up False by (intro Suc.hyps(1)) simp_all
    finally show ?thesis by (simp add: up False)
  next
    case True
    have room: "index < n" using Suc.prems(7) up True by simp
    have "fill_loop s a i index (ds, ps, ts, tms) =
           fill_loop s a (i + 1) (Suc index)
             (ds[index := euint32_toBytes32 (encryptedDomainPattern (filteringRules s i))],
              ps[index := euint32_toBytes32 (encryptedPathPattern (filteringRules s i))],
              ts[index := euint32_toBytes32 (encryptedRuleType (filteringRules s i))],
              tms[index := timestamp (filteringRules s i)])"
      using ile lt True room Suc.prems by (intro fill_step_newer) simp_all
    also have "\<dots> = Inr (filled (ds[index := euint32_toBytes32 (encryptedDomainPattern (filteringRules s i))]) (Suc index)
                            (map (\<lambda>j. euint32_toBytes32 (encryptedDomainPattern (filteringRules s j)))
                                   (filter (newer s a) (rule_ids s (i + 1)))),
                filled (ps[index := euint32_toBytes32 (encryptedPathPattern (filteringRules s i))]) (Suc index)
                            (map (\<lambda>j. euint32_toBytes32 (encryptedPathPattern (filteringRules s j)))
                                   (filter (newer s a) (rule_ids s (i + 1)))),
                filled (ts[index := euint32_toBytes32 (encryptedRuleType (filteringRules s i))]) (Suc index)
                            (map (\<lambda>j. euint32_toBytes32 (encryptedRuleType (filteringRules s j)))
                                   (filter (newer s a) (rule_ids s (i + 1)))),
                filled (tms[index := timestamp (filteringRules s i)]) (Suc index) (map (\<lambda>j. timestamp (filteringRules s j))
                                   (filter (newer s a) (rule_ids s (i + 1)))))"
      using Suc.hyps(2) Suc.prems up True by (intro Suc.hyps(1)) simp_all
    finally show ?thesis
      using room Suc.prems by (simp add: up True filled_Cons)
  qed
qed

section \<open>Facts about the views and the example environment\<close>


lemma newer_fun: "newer s a = (\<lambda>i. lastSyncTimestamps s a < timestamp (filteringRules s i))"
  by (simp add: fun_eq_iff newer_def)

lemma getRuleUpdates_eq:
  assumes "ruleCount s < max_uint256"
  shows "getRuleUpdates s a =
           Inr (map (\<lambda>j. euint32_toBytes32 (encryptedDomainPattern (filteringRules s j)))
                  (filter (newer s a) (rule_ids s 1)),
                map (\<lambda>j. euint32_toBytes32 (encryptedPathPattern (filteringRules s j)))
                  (filter (newer s a) (rule_ids s 1)),
                map (\<lambda>j. euint32_toBytes32 (encryptedRuleType (filteringRules s j)))
                  (filter (newer s a) (rule_ids s 1)),
                map (\<lambda>j. timestamp (filteringRules s j))
                  (filter (newer s a) (rule_ids s 1)))"
proof -
  let ?ids = "filter (newer s a) (rule_ids s 1)"
  have "length ?ids \<le> length (rule_ids s 1)"
    by (rule length_filter_le)
  then have le: "length ?ids \<le> ruleCount s"
    by (simp add: length_rule_ids)
  then have cnt: "count_loop s a 1 0 = Inr (length ?ids)"
    using assms count_loop_eq [of s 0 a 1] by simp
  have "fill_loop s a 1 0
          (replicate (length ?ids) 0, replicate (length ?ids) 0,
           replicate (length ?ids) 0, replicate (length ?ids) 0) =
        Inr (filled (replicate (length ?ids) 0) 0
               (map (\<lambda>j. euint32_toBytes32 (encryptedDomainPattern (filteringRules s j))) ?ids),
             filled (replicate (length ?ids) 0) 0
               (map (\<lambda>j. euint32_toBytes32 (encryptedPathPattern (filteringRules s j))) ?ids),
             filled (replicate (length ?ids) 0) 0
               (map (\<lambda>j. euint32_toBytes32 (encryptedRuleType (filteringRules s j))) ?ids),
             filled (replicate (length ?ids) 0) 0
               (map (\<lambda>j. timestamp (filteringRules s j)) ?ids))"
    using assms le by (intro fill_loop_eq [where n = "length ?ids"]) simp_all
  then show ?thesis
    using cnt by (simp add: getRuleUpdates_def filled_all)
qed

lemma foldl_zeros:
  "foldl (\<lambda>acc b. acc * 256 + unat b) 0 (replicate n (0::8 word) @ xs)
     = foldl (\<lambda>acc b. acc * 256 + unat b) 0 xs"
  by (induction n) simp_all

lemma word_at_encode_0: "word_at (encode_uint32_bool n b) 0 = unat n"
  using foldl_zeros [of 31 "[n]"]
  by (simp add: word_at_def encode_uint32_bool_def)

lemma word_at_encode_32: "word_at (encode_uint32_bool n b) 32 = (if b then 1 else 0)"
  using foldl_zeros [of 31 "[if b then 1 else 0]"]
  by (simp add: word_at_def encode_uint32_bool_def)

lemma length_encode: "length (encode_uint32_bool n b) = 64"
  by (simp add: encode_uint32_bool_def)

lemma decode_encode: "abi_decode_uint32_bool (encode_uint32_bool n b) = Inr (ucast n, b)"
proof -
  have "unat n < 2 ^ 8"
    using unsigned_less [of n] by simp
  then have "unat n < 2 ^ 32"
    by simp
  then show ?thesis
    by (simp add: abi_decode_uint32_bool_def word_at_encode_0 word_at_encode_32 length_encode)
qed

lemma decode_encode_bool: "abi_decode_bool (encode_bool b) = Inr b"
  using foldl_zeros [of 31 "[if b then 1 else 0]"]
  by (simp add: abi_decode_bool_def word_at_def encode_bool_def)

lemma toy_check: "checkSignatures toy_fhe r b p \<longleftrightarrow> p = of_nat r # b"
  by (simp add: toy_fhe_def)

lemma exec_call_at:
  "exec fhe s (call_at a t c) =
     (case dispatch fhe s a t c of Inl e \<Rightarrow> (s, Inl e) | Inr (s', acts) \<Rightarrow> (s', Inr acts))"
  by (simp add: exec_def call_at_def)

section \<open>The callbacks and their proofs\<close>

text \<open>
  Claim C3. A match callback or a decryption callback whose proof fails verification is
  rejected with \<open>InvalidProof\<close>, and the storage after the call is the storage before
  it, whatever the payload decodes to.
\<close>

theorem invalid_proof_changes_nothing:
  assumes "\<not> checkSignatures fhe requestId payload proof"
  shows "exec fhe s (call_at a t (PerformMatching requestId payload proof)) = (s, Inl InvalidProof)
       \<and> exec fhe s (call_at a t (DecryptDecision requestId payload proof)) = (s, Inl InvalidProof)"
  using assms by (simp add: exec_call_at performMatching_def decryptDecision_def)

text \<open>
  The payload below decodes to the plausible result (95, true); its proof is empty and
  does not verify.
\<close>

theorem invalid_proof_changes_nothing_witness:
  "\<not> checkSignatures toy_fhe 7 (encode_uint32_bool 95 True) []
   \<and> abi_decode_uint32_bool (encode_uint32_bool 95 True) = Inr (95, True)
   \<and> exec toy_fhe one_rule (call_at bob 150 (PerformMatching 7 (encode_uint32_bool 95 True) []))
       = (one_rule, Inl InvalidProof)
   \<and> exec toy_fhe one_rule (call_at bob 150 (DecryptDecision 7 (encode_uint32_bool 95 True) []))
       = (one_rule, Inl InvalidProof)"
proof -
  have bad: "\<not> checkSignatures toy_fhe 7 (encode_uint32_bool 95 True) []"
    by (simp add: toy_check)
  show ?thesis
    using bad invalid_proof_changes_nothing [OF bad, of one_rule bob 150]
    by (simp add: decode_encode)
qed

text \<open>
  Claim C9. A call of \<open>decryptDecision\<close> whose proof verifies leaves the whole storage as
  it was and emits nothing: the decoded decision is dropped. The call succeeds when the
  cleartext decodes to a boolean and reverts otherwise.
\<close>

theorem decryptDecision_keeps_storage:
  assumes "checkSignatures fhe requestId cleartexts proof"
  shows "exec fhe s (call_at a t (DecryptDecision requestId cleartexts proof)) =
           (s, case abi_decode_bool cleartexts of Inl e \<Rightarrow> Inl e | Inr shouldBlock \<Rightarrow> Inr [])"
  using assms by (simp add: exec_call_at decryptDecision_def split: sum.splits)

theorem decryptDecision_keeps_storage_witness:
  "checkSignatures toy_fhe 9 (encode_bool True) (9 # encode_bool True)
   \<and> abi_decode_bool (encode_bool True) = Inr True
   \<and> exec toy_fhe one_rule (call_at bob 400 (DecryptDecision 9 (encode_bool True) (9 # encode_bool True)))
       = (one_rule, Inr [])"
proof -
  have ok: "checkSignatures toy_fhe 9 (encode_bool True) (9 # encode_bool True)"
    by (simp add: toy_check)
  show ?thesis
    using ok decryptDecision_keeps_storage [OF ok, of one_rule bob 400]
    by (simp add: decode_encode_bool)
qed

section \<open>Calls in the example environment\<close>

lemma perform_toy:
  "performMatching toy_fhe s a t r (encode_uint32_bool n b) (of_nat r # encode_uint32_bool n b) =
     Inr (s \<lparr> matchResults := (matchResults s)
                 (a := \<lparr> encryptedMatchScore = Euint32 (ucast (ucast n :: uint32)),
                         encryptedShouldBlock = Ebool (if b then 1 else 0),
                         isProcessed = True \<rparr>),
              lastSyncTimestamps := (lastSyncTimestamps s) (a := t) \<rparr>,
          [MatchProcessed a])"
  by (simp add: performMatching_def toy_check decode_encode) (simp add: toy_fhe_def)

lemma rule_ids_deployed: "rule_ids deployed i = (if i = 0 then [0] else [])"
  by (simp add: rule_ids_def deployed_def)

lemma request_toy_deployed:
  "requestUrlMatching toy_fhe deployed a d p =
     Inr (deployed \<lparr> matchResults := (matchResults deployed)
                      (a := \<lparr> encryptedMatchScore = Euint32 0,
                              encryptedShouldBlock = Ebool 0,
                              isProcessed = False \<rparr>) \<rparr>,
          [RequestComputation [euint32_toBytes32 d, euint32_toBytes32 p] performMatching_selector,
           MatchingRequested a])"
proof -
  have "ruleCount deployed * 3 + 2 \<le> max_uint256"
    by (simp add: deployed_def max_uint256_def)
  then show ?thesis
    by (simp add: requestUrlMatching_eq rule_ids_deployed) (simp add: toy_fhe_def)
qed

section \<open>Who may write the ledger\<close>

lemma one_rule_eq:
  "one_rule = deployed \<lparr> ruleCount := 1,
       filteringRules := (filteringRules deployed)
          (1 := \<lparr> encryptedDomainPattern = Euint32 11, encryptedPathPattern = Euint32 12,
                  encryptedRuleType = Euint32 13, timestamp = 100 \<rparr>),
       lastUpdateTimestamp := 100 \<rparr>"
  by (simp add: one_rule_def exec_call_at addFilteringRule_def onlyMaintainer_def checked_add_def
        max_uint256_def deployed_def)

text \<open>
  Claim C2. The claim asks that a caller without the maintainer capability gets
  \<open>Unauthorized\<close> from \<open>addFilteringRule\<close> and \<open>updateFilteringRule\<close> and changes nothing.
  The contract stores no maintainers, so no caller holds the capability; yet on the
  freshly deployed contract \<open>bob\<close> adds a rule and then overwrites it: both calls
  succeed, \<open>ruleCount\<close> becomes 1, the rule carries his patterns and
  \<open>lastUpdateTimestamp\<close> moves to 100 and then to 200.
\<close>

theorem any_caller_writes_the_ledger:
  "map snd (snd (run toy_fhe deployed
      [call_at bob 100 (AddFilteringRule (Euint32 11) (Euint32 12) (Euint32 13)),
       call_at bob 200 (UpdateFilteringRule 1 (Euint32 21) (Euint32 22) (Euint32 23))]))
     = [Inr [RuleAdded 1 100], Inr [RuleUpdated 1]]
   \<and> ruleCount (fst (run toy_fhe deployed
      [call_at bob 100 (AddFilteringRule (Euint32 11) (Euint32 12) (Euint32 13)),
       call_at bob 200 (UpdateFilteringRule 1 (Euint32 21) (Euint32 22) (Euint32 23))])) = 1
   \<and> filteringRules (fst (run toy_fhe deployed
      [call_at bob 100 (AddFilteringRule (Euint32 11) (Euint32 12) (Euint32 13)),
       call_at bob 200 (UpdateFilteringRule 1 (Euint32 21) (Euint32 22) (Euint32 23))])) 1
     = \<lparr> encryptedDomainPattern = Euint32 21, encryptedPathPattern = Euint32 22,
         encryptedRuleType = Euint32 23, timestamp = 200 \<rparr>
   \<and> lastUpdateTimestamp (fst (run toy_fhe deployed
      [call_at bob 100 (AddFilteringRule (Euint32 11) (Euint32 12) (Euint32 13)),
       call_at bob 200 (UpdateFilteringRule 1 (Euint32 21) (Euint32 22) (Euint32 23))])) = 200
   \<and> addFilteringRule deployed bob 100 (Euint32 11) (Euint32 12) (Euint32 13) \<noteq> Inl Unauthorized"
  by (simp add: exec_call_at addFilteringRule_def updateFilteringRule_def onlyMaintainer_def
        checked_add_def max_uint256_def deployed_def)

section \<open>Callbacks and request ids\<close>

lemma two_requests_state:
  "fst (run toy_fhe deployed two_requests) =
     deployed \<lparr> matchResults := (matchResults deployed)
                  (bob := \<lparr> encryptedMatchScore = Euint32 0, encryptedShouldBlock = Ebool 0,
                            isProcessed = False \<rparr>) \<rparr>"
proof -
  let ?s1 = "deployed \<lparr> matchResults := (matchResults deployed)
                  (bob := \<lparr> encryptedMatchScore = Euint32 0, encryptedShouldBlock = Ebool 0,
                            isProcessed = False \<rparr>) \<rparr>"
  have le: "ruleCount ?s1 * 3 + 2 \<le> max_uint256"
    by (simp add: deployed_def max_uint256_def)
  have ids: "rule_ids ?s1 (Suc 0) = []"
    by (simp add: rule_ids_def deployed_def)
  have "requestUrlMatching toy_fhe ?s1 bob (Euint32 3) (Euint32 4) =
          Inr (?s1, [RequestComputation [3, 4] performMatching_selector, MatchingRequested bob])"
    using ids by (simp add: requestUrlMatching_eq [OF le]) (simp add: toy_fhe_def)
  then show ?thesis
    by (simp add: two_requests_def exec_call_at request_toy_deployed)
qed

text \<open>
  The claim C1 as it is written fails. After \<open>bob\<close>'s second request the callback of his
  first one arrives with the old request id 1: its proof verifies, the call is accepted,
  the storage changes, and \<open>getEncryptedMatchResult\<close>, which failed with
  \<open>NotProcessed\<close> before, shows the decision of the first request.
\<close>

theorem stale_callback_accepted:
  "getEncryptedMatchResult (fst (run toy_fhe deployed two_requests)) bob = Inl NotProcessed
   \<and> snd (exec toy_fhe (fst (run toy_fhe deployed two_requests)) late_callback)
       = Inr [MatchProcessed bob]
   \<and> fst (exec toy_fhe (fst (run toy_fhe deployed two_requests)) late_callback)
       \<noteq> fst (run toy_fhe deployed two_requests)
   \<and> getEncryptedMatchResult
        (fst (exec toy_fhe (fst (run toy_fhe deployed two_requests)) late_callback)) bob
       = Inr (Ebool 1)"
proof -
  let ?s = "fst (run toy_fhe deployed two_requests)"
  let ?s' = "fst (exec toy_fhe ?s late_callback)"
  have a: "getEncryptedMatchResult ?s bob = Inl NotProcessed"
    by (simp add: two_requests_state getEncryptedMatchResult_def)
  have e: "exec toy_fhe ?s late_callback =
             (?s \<lparr> matchResults := (matchResults ?s)
                      (bob := \<lparr> encryptedMatchScore = Euint32 (ucast (ucast (10 :: 8 word) :: uint32)),
                                encryptedShouldBlock = Ebool 1, isProcessed = True \<rparr>),
                    lastSyncTimestamps := (lastSyncTimestamps ?s) (bob := 30) \<rparr>,
              Inr [MatchProcessed bob])"
    using perform_toy [of ?s bob 30 1 10 True] by (simp add: late_callback_def exec_call_at)
  have b: "snd (exec toy_fhe ?s late_callback) = Inr [MatchProcessed bob]"
    by (simp add: e)
  have c: "getEncryptedMatchResult ?s' bob = Inr (Ebool 1)"
    by (simp add: e getEncryptedMatchResult_def)
  have l1: "lastSyncTimestamps ?s' bob = 30"
    by (simp add: e)
  have l2: "lastSyncTimestamps ?s bob = 0"
    unfolding two_requests_state by (simp add: deployed_def)
  from l1 l2 have d: "?s' \<noteq> ?s"
    by auto
  show ?thesis
    using a b c d by simp
qed

text \<open>
  Claim C1, amended. The contract records no request id. A match callback is accepted
  whenever its proof verifies for the request id and the payload it carries and the
  payload decodes, whatever requests the storage has seen: it overwrites the caller's
  match result with the decoded one, marked processed, sets the caller's sync time to the
  block time and touches nothing else, so \<open>getEncryptedMatchResult\<close> shows the result of
  the last accepted callback. A decryption callback is accepted under the same
  condition and changes nothing.
\<close>

theorem callback_accepted_on_proof_alone:
  "(checkSignatures fhe requestId results proof
      \<and> abi_decode_uint32_bool results = Inr (matchScore, shouldBlock) \<longrightarrow>
      performMatching fhe s a t requestId results proof =
        Inr (s \<lparr> matchResults := (matchResults s)
                   (a := \<lparr> encryptedMatchScore = asEuint32 fhe matchScore,
                           encryptedShouldBlock = asEbool fhe shouldBlock,
                           isProcessed = True \<rparr>),
                 lastSyncTimestamps := (lastSyncTimestamps s) (a := t) \<rparr>,
             [MatchProcessed a])
    \<and> getEncryptedMatchResult
         (fst (exec fhe s (call_at a t (PerformMatching requestId results proof)))) a
        = Inr (asEbool fhe shouldBlock))
   \<and> (checkSignatures fhe requestId' cleartexts proof'
      \<and> abi_decode_bool cleartexts = Inr decision \<longrightarrow>
      decryptDecision fhe s a requestId' cleartexts proof' = Inr (s, []))"
  by (simp add: performMatching_def decryptDecision_def exec_call_at getEncryptedMatchResult_def)

theorem callback_accepted_on_proof_alone_witness:
  "checkSignatures toy_fhe 1 (encode_uint32_bool 10 False) (1 # encode_uint32_bool 10 False)
   \<and> abi_decode_uint32_bool (encode_uint32_bool 10 False) = Inr (10, False)
   \<and> checkSignatures toy_fhe 5 (encode_bool True) (5 # encode_bool True)
   \<and> abi_decode_bool (encode_bool True) = Inr True
   \<and> snd (projr (performMatching toy_fhe one_rule bob 30 1 (encode_uint32_bool 10 False)
                    (1 # encode_uint32_bool 10 False))) = [MatchProcessed bob]
   \<and> getEncryptedMatchResult
        (fst (exec toy_fhe one_rule (call_at bob 30
           (PerformMatching 1 (encode_uint32_bool 10 False) (1 # encode_uint32_bool 10 False))))) bob
       = Inr (Ebool 0)
   \<and> decryptDecision toy_fhe one_rule bob 5 (encode_bool True) (5 # encode_bool True)
       = Inr (one_rule, [])"
proof -
  have c1: "checkSignatures toy_fhe 1 (encode_uint32_bool 10 False) (1 # encode_uint32_bool 10 False)"
    by (simp add: toy_check)
  have d1: "abi_decode_uint32_bool (encode_uint32_bool 10 False) = Inr (10, False)"
    by (simp add: decode_encode)
  have c2: "checkSignatures toy_fhe 5 (encode_bool True) (5 # encode_bool True)"
    by (simp add: toy_check)
  have d2: "abi_decode_bool (encode_bool True) = Inr True"
    by (simp add: decode_encode_bool)
  have e: "asEbool toy_fhe False = Ebool 0"
    by (simp add: toy_fhe_def)
  from callback_accepted_on_proof_alone
         [of toy_fhe 1 "encode_uint32_bool 10 False" "1 # encode_uint32_bool 10 False" 10 False
             one_rule bob 30 5 "encode_bool True" "5 # encode_bool True" True]
  show ?thesis
    using c1 d1 c2 d2 e by simp
qed

section \<open>Counting the rules\<close>

lemma rule_added_ids_single [simp]:
  "rule_added_ids [RuleUpdated i] = []"
  "rule_added_ids [MatchProcessed a] = []"
  "rule_added_ids [RequestDecryption cs sel] = []"
  "rule_added_ids [RequestComputation cs sel, MatchingRequested a] = []"
  by simp_all

lemma dispatch_ruleCount:
  assumes "dispatch fhe s a t c = Inr (s', acts)"
  shows "if is_AddFilteringRule c
         then ruleCount s' = Suc (ruleCount s) \<and> rule_added_ids acts = [Suc (ruleCount s)]
         else ruleCount s' = ruleCount s \<and> rule_added_ids acts = []"
proof (cases c)
  case (AddFilteringRule d p r)
  with assms show ?thesis
    by (auto simp: addFilteringRule_def onlyMaintainer_def checked_add_def split: if_splits)
next
  case (UpdateFilteringRule i d p r)
  with assms show ?thesis
    by (auto simp: updateFilteringRule_def onlyMaintainer_def split: if_splits)
next
  case (RequestUrlMatching d p)
  with assms show ?thesis
    by (auto simp: requestUrlMatching_def split: sum.splits)
next
  case (PerformMatching r b p)
  with assms show ?thesis
    by (auto simp: performMatching_def split: if_splits sum.splits)
next
  case RequestDecisionDecryption
  with assms show ?thesis
    by (auto simp: requestDecisionDecryption_def store_def split: if_splits)
next
  case (DecryptDecision r b p)
  with assms show ?thesis
    by (auto simp: decryptDecision_def split: if_splits sum.splits)
qed

lemma exec_ruleCount:
  "ruleCount (fst (exec fhe s x)) =
     ruleCount s + (if successful_add (x, snd (exec fhe s x)) then 1 else 0)
   \<and> receipt_ids (snd (exec fhe s x)) =
     (if successful_add (x, snd (exec fhe s x)) then [Suc (ruleCount s)] else [])"
proof (cases "dispatch fhe s (tx_sender x) (tx_timestamp x) (tx_call x)")
  case (Inl e)
  then show ?thesis
    by (simp add: exec_def successful_add_def receipt_ids_def)
next
  case (Inr r)
  obtain s' acts where r: "r = (s', acts)"
    by (cases r)
  from dispatch_ruleCount [of fhe s "tx_sender x" "tx_timestamp x" "tx_call x" s' acts] Inr r
  show ?thesis
    by (simp add: exec_def successful_add_def receipt_ids_def split: if_splits)
qed

lemma run_ruleCount:
  "ruleCount (fst (run fhe s xs)) = ruleCount s + length (filter successful_add (snd (run fhe s xs)))
   \<and> assigned_ids (snd (run fhe s xs))
       = [Suc (ruleCount s)..<Suc (ruleCount s + length (filter successful_add (snd (run fhe s xs))))]"
proof (induction xs arbitrary: s)
  case Nil
  show ?case by (simp add: assigned_ids_def)
next
  case (Cons x xs)
  let ?s1 = "fst (exec fhe s x)"
  let ?r = "snd (exec fhe s x)"
  have run: "run fhe s (x # xs) = (fst (run fhe ?s1 xs), (x, ?r) # snd (run fhe ?s1 xs))"
    by (simp split: prod.splits)
  note step = exec_ruleCount [of fhe s x]
  note ih = Cons.IH [of ?s1]
  show ?case
  proof (cases "successful_add (x, ?r)")
    case True
    with step have c: "ruleCount ?s1 = Suc (ruleCount s)" and i: "receipt_ids ?r = [Suc (ruleCount s)]"
      by simp_all
    show ?thesis
      using ih True c i unfolding run
      by (simp add: assigned_ids_def upt_conv_Cons del: upt_Suc)
  next
    case False
    with step have c: "ruleCount ?s1 = ruleCount s" and i: "receipt_ids ?r = []"
      by simp_all
    show ?thesis
      using ih False c i unfolding run
      by (simp add: assigned_ids_def del: upt_Suc)
  qed
qed

lemma ledger_history_receipts:
  "map snd (snd (run toy_fhe deployed ledger_history)) =
     [Inr [RuleAdded 1 100], Inr [RuleUpdated 1], Inr [RuleAdded 2 120], Inl NotFound,
      Inr [RuleAdded 3 140]]"
  by (simp add: ledger_history_def exec_call_at addFilteringRule_def updateFilteringRule_def
        onlyMaintainer_def checked_add_def max_uint256_def deployed_def)

section \<open>The computation payload\<close>

text \<open>
  Claim C8. A call of \<open>requestUrlMatching\<close> hands to the backend the two handles of the
  URL followed by the three handles (domain pattern, path pattern, rule type) of every
  rule, in ascending order of the rule ids \<open>1 .. ruleCount\<close>; the payload has
  \<open>ruleCount * 3 + 2\<close> entries. (The call reverts when that length does not fit a
  \<^verbatim>\<open>uint256\<close>.)
\<close>

theorem payload_is_url_then_all_rules:
  assumes "ruleCount s * 3 + 2 \<le> max_uint256"
  shows "\<exists>s' payload.
           requestUrlMatching fhe s a encryptedDomain encryptedPath =
             Inr (s', [RequestComputation payload performMatching_selector, MatchingRequested a])
         \<and> payload =
             [euint32_toBytes32 encryptedDomain, euint32_toBytes32 encryptedPath]
             @ concat (map (\<lambda>i. [euint32_toBytes32 (encryptedDomainPattern (filteringRules s i)),
                                  euint32_toBytes32 (encryptedPathPattern (filteringRules s i)),
                                  euint32_toBytes32 (encryptedRuleType (filteringRules s i))])
                         [1..<Suc (ruleCount s)])
         \<and> length payload = ruleCount s * 3 + 2"
proof -
  have f: "rule_fields s = (\<lambda>i. [euint32_toBytes32 (encryptedDomainPattern (filteringRules s i)),
                                  euint32_toBytes32 (encryptedPathPattern (filteringRules s i)),
                                  euint32_toBytes32 (encryptedRuleType (filteringRules s i))])"
    by (simp add: fun_eq_iff rule_fields_def)
  have len: "length (concat (map (rule_fields s) (rule_ids s 1))) = ruleCount s * 3"
    by (simp add: length_concat o_def rule_fields_def sum_list_triv length_rule_ids)
  show ?thesis
    using requestUrlMatching_eq [OF assms, of fhe a encryptedDomain encryptedPath] len
    unfolding f rule_ids_def by simp
qed

lemma three_rules_state:
  "fst (run toy_fhe deployed three_rules) =
     deployed \<lparr> ruleCount := 3,
       filteringRules := (filteringRules deployed)
          (Suc 0 := \<lparr> encryptedDomainPattern = Euint32 11, encryptedPathPattern = Euint32 12,
                  encryptedRuleType = Euint32 13, timestamp = 100 \<rparr>,
           Suc (Suc 0) := \<lparr> encryptedDomainPattern = Euint32 21, encryptedPathPattern = Euint32 22,
                  encryptedRuleType = Euint32 23, timestamp = 200 \<rparr>,
           Suc (Suc (Suc 0)) := \<lparr> encryptedDomainPattern = Euint32 31, encryptedPathPattern = Euint32 32,
                  encryptedRuleType = Euint32 33, timestamp = 300 \<rparr>),
       matchResults := (matchResults deployed)
          (bob := \<lparr> encryptedMatchScore = Euint32 95, encryptedShouldBlock = Ebool 1,
                    isProcessed = True \<rparr>),
       lastUpdateTimestamp := 300,
       lastSyncTimestamps := (lastSyncTimestamps deployed) (bob := 150) \<rparr>"
  using perform_toy [of _ bob 150 7 95 True]
  by (simp add: three_rules_def exec_call_at addFilteringRule_def onlyMaintainer_def checked_add_def
        max_uint256_def deployed_def)

theorem payload_is_url_then_all_rules_witness:
  "ruleCount (fst (run toy_fhe deployed three_rules)) = 3
   \<and> (\<exists>s'. requestUrlMatching toy_fhe (fst (run toy_fhe deployed three_rules)) bob (Euint32 1) (Euint32 2)
         = Inr (s', [RequestComputation [1, 2, 11, 12, 13, 21, 22, 23, 31, 32, 33] performMatching_selector,
                     MatchingRequested bob]))"
proof -
  let ?s = "fst (run toy_fhe deployed three_rules)"
  have n: "ruleCount ?s = 3"
    by (simp add: three_rules_state)
  then have le: "ruleCount ?s * 3 + 2 \<le> max_uint256"
    by (simp add: max_uint256_def)
  have up: "[1..<Suc 3] = [1, 2, 3]"
    by (simp add: upt_conv_Cons del: upt_Suc)
  have r: "filteringRules ?s (Suc 0) = \<lparr> encryptedDomainPattern = Euint32 11, encryptedPathPattern = Euint32 12,
                  encryptedRuleType = Euint32 13, timestamp = 100 \<rparr>"
          "filteringRules ?s 2 = \<lparr> encryptedDomainPattern = Euint32 21, encryptedPathPattern = Euint32 22,
                  encryptedRuleType = Euint32 23, timestamp = 200 \<rparr>"
          "filteringRules ?s 3 = \<lparr> encryptedDomainPattern = Euint32 31, encryptedPathPattern = Euint32 32,
                  encryptedRuleType = Euint32 33, timestamp = 300 \<rparr>"
    by (simp_all add: three_rules_state)
  from payload_is_url_then_all_rules [OF le, of toy_fhe bob "Euint32 1" "Euint32 2"]
  show ?thesis
    unfolding n up by (auto simp: r)
qed

section \<open>The delta of a client\<close>

text \<open>
  Claim C4. \<open>getRuleUpdates\<close> returns, as four parallel arrays (domain patterns, path
  patterns, rule types, timestamps), exactly the rules whose timestamp is strictly
  greater than the caller's entry of \<open>lastSyncTimestamps\<close> (0 for a caller that never
  synced), in ascending order of their ids. It is a view: it yields a value and no
  storage. (With \<open>ruleCount = 2^256 - 1\<close> the loop counter would overflow.)
\<close>

theorem getRuleUpdates_returns_newer_rules:
  assumes "ruleCount s < max_uint256"
  shows "getRuleUpdates s a =
           (let changed = filter (\<lambda>i. lastSyncTimestamps s a < timestamp (filteringRules s i))
                            [1..<Suc (ruleCount s)]
            in Inr (map (\<lambda>i. euint32_toBytes32 (encryptedDomainPattern (filteringRules s i))) changed,
                    map (\<lambda>i. euint32_toBytes32 (encryptedPathPattern (filteringRules s i))) changed,
                    map (\<lambda>i. euint32_toBytes32 (encryptedRuleType (filteringRules s i))) changed,
                    map (\<lambda>i. timestamp (filteringRules s i)) changed))"
  using getRuleUpdates_eq [OF assms, of a]
  unfolding newer_fun rule_ids_def Let_def by simp

lemma upt_1_4: "[1..<Suc 3] = [1, 2, 3]"
  by (simp add: upt_conv_Cons del: upt_Suc)

theorem getRuleUpdates_returns_newer_rules_witness:
  "ruleCount (fst (run toy_fhe deployed three_rules)) = 3
   \<and> map (\<lambda>i. timestamp (filteringRules (fst (run toy_fhe deployed three_rules)) i)) [1, 2, 3]
       = [100, 200, 300]
   \<and> lastSyncTimestamps (fst (run toy_fhe deployed three_rules)) bob = 150
   \<and> getRuleUpdates (fst (run toy_fhe deployed three_rules)) bob
       = Inr ([21, 31], [22, 32], [23, 33], [200, 300])
   \<and> lastSyncTimestamps (fst (run toy_fhe deployed three_rules)) alice = 0
   \<and> getRuleUpdates (fst (run toy_fhe deployed three_rules)) alice
       = Inr ([11, 21, 31], [12, 22, 32], [13, 23, 33], [100, 200, 300])"
proof -
  let ?s = "fst (run toy_fhe deployed three_rules)"
  have n: "ruleCount ?s = 3"
    by (simp add: three_rules_state)
  then have lt: "ruleCount ?s < max_uint256"
    by (simp add: max_uint256_def)
  have r: "filteringRules ?s (Suc 0) = \<lparr> encryptedDomainPattern = Euint32 11, encryptedPathPattern = Euint32 12,
                  encryptedRuleType = Euint32 13, timestamp = 100 \<rparr>"
          "filteringRules ?s 2 = \<lparr> encryptedDomainPattern = Euint32 21, encryptedPathPattern = Euint32 22,
                  encryptedRuleType = Euint32 23, timestamp = 200 \<rparr>"
          "filteringRules ?s 3 = \<lparr> encryptedDomainPattern = Euint32 31, encryptedPathPattern = Euint32 32,
                  encryptedRuleType = Euint32 33, timestamp = 300 \<rparr>"
    by (simp_all add: three_rules_state)
  have ab: "alice \<noteq> bob"
    by (simp add: alice_def bob_def)
  have c: "lastSyncTimestamps ?s bob = 150" "lastSyncTimestamps ?s alice = 0"
    using ab unfolding three_rules_state by (simp_all add: deployed_def)
  from getRuleUpdates_returns_newer_rules [OF lt, of bob]
       getRuleUpdates_returns_newer_rules [OF lt, of alice]
  show ?thesis
    unfolding n upt_1_4 by (simp add: r c)
qed

section \<open>The cursor of a client\<close>

text \<open>
  Claim C10. A successful \<open>performMatching\<close> sets the caller's entry of
  \<open>lastSyncTimestamps\<close> to the block time and leaves the ledger alone. Hence a
  \<open>getRuleUpdates\<close> of that caller on the resulting storage returns the rules whose
  timestamp is after that block time and none at or before it, and \<open>needsUpdate\<close>
  compares the block time with \<open>lastUpdateTimestamp\<close>: it is false when the last ledger
  write happened at or before this block. No earlier \<open>getRuleUpdates\<close> is needed for
  that.
\<close>

theorem performMatching_moves_cursor:
  assumes "performMatching fhe s a t requestId results proof = Inr (s', acts)"
  shows "lastSyncTimestamps s' a = t
       \<and> ruleCount s' = ruleCount s \<and> filteringRules s' = filteringRules s
       \<and> lastUpdateTimestamp s' = lastUpdateTimestamp s
       \<and> (ruleCount s < max_uint256 \<longrightarrow>
            getRuleUpdates s' a =
              (let changed = filter (\<lambda>i. t < timestamp (filteringRules s i)) [1..<Suc (ruleCount s)]
               in Inr (map (\<lambda>i. euint32_toBytes32 (encryptedDomainPattern (filteringRules s i))) changed,
                       map (\<lambda>i. euint32_toBytes32 (encryptedPathPattern (filteringRules s i))) changed,
                       map (\<lambda>i. euint32_toBytes32 (encryptedRuleType (filteringRules s i))) changed,
                       map (\<lambda>i. timestamp (filteringRules s i)) changed)))
       \<and> (needsUpdate s' a \<longleftrightarrow> t < lastUpdateTimestamp s)
       \<and> (lastUpdateTimestamp s \<le> t \<longrightarrow> \<not> needsUpdate s' a)"
proof -
  from assms have s': "s' = s \<lparr> matchResults := matchResults s', 
                               lastSyncTimestamps := (lastSyncTimestamps s) (a := t) \<rparr>"
    by (auto simp: performMatching_def split: if_splits sum.splits)
  have f: "lastSyncTimestamps s' a = t" "ruleCount s' = ruleCount s"
    "filteringRules s' = filteringRules s" "lastUpdateTimestamp s' = lastUpdateTimestamp s"
    by (subst s', simp)+
  have g: "getRuleUpdates s' a =
              (let changed = filter (\<lambda>i. t < timestamp (filteringRules s i)) [1..<Suc (ruleCount s)]
               in Inr (map (\<lambda>i. euint32_toBytes32 (encryptedDomainPattern (filteringRules s i))) changed,
                       map (\<lambda>i. euint32_toBytes32 (encryptedPathPattern (filteringRules s i))) changed,
                       map (\<lambda>i. euint32_toBytes32 (encryptedRuleType (filteringRules s i))) changed,
                       map (\<lambda>i. timestamp (filteringRules s i)) changed))"
    if "ruleCount s < max_uint256"
    using that getRuleUpdates_eq [of s' a]
    unfolding newer_fun rule_ids_def Let_def f by simp
  show ?thesis
    using f g by (simp add: needsUpdate_def)
qed


lemma perform_one_rule:
  "exec toy_fhe one_rule
     (call_at bob 150 (PerformMatching 7 (encode_uint32_bool 95 True) (7 # encode_uint32_bool 95 True)))
   = (one_rule \<lparr> matchResults := (matchResults one_rule)
                    (bob := \<lparr> encryptedMatchScore = Euint32 95, encryptedShouldBlock = Ebool 1,
                              isProcessed = True \<rparr>),
                 lastSyncTimestamps := (lastSyncTimestamps one_rule) (bob := 150) \<rparr>,
      Inr [MatchProcessed bob])"
  using perform_toy [of one_rule bob 150 7 95 True] by (simp add: exec_call_at)

lemma one_rule_fields:
  "ruleCount one_rule = 1" "lastUpdateTimestamp one_rule = 100"
  "lastSyncTimestamps one_rule a = 0"
  "filteringRules one_rule (Suc 0) =
     \<lparr> encryptedDomainPattern = Euint32 11, encryptedPathPattern = Euint32 12,
       encryptedRuleType = Euint32 13, timestamp = 100 \<rparr>"
  by (simp_all add: one_rule_eq) (simp add: deployed_def)

lemma one_rule_delta: "getRuleUpdates one_rule a = Inr ([11], [12], [13], [100])"
proof -
  have "ruleCount one_rule < max_uint256"
    by (simp add: one_rule_fields max_uint256_def)
  then show ?thesis
    by (simp add: getRuleUpdates_eq rule_ids_def newer_def one_rule_fields)
qed

theorem performMatching_moves_cursor_witness:
  "getRuleUpdates one_rule bob = Inr ([11], [12], [13], [100])
   \<and> needsUpdate one_rule bob
   \<and> snd (exec toy_fhe one_rule
        (call_at bob 150 (PerformMatching 7 (encode_uint32_bool 95 True) (7 # encode_uint32_bool 95 True))))
       = Inr [MatchProcessed bob]
   \<and> lastSyncTimestamps (fst (exec toy_fhe one_rule
        (call_at bob 150 (PerformMatching 7 (encode_uint32_bool 95 True) (7 # encode_uint32_bool 95 True)))))
        bob = 150
   \<and> getRuleUpdates (fst (exec toy_fhe one_rule
        (call_at bob 150 (PerformMatching 7 (encode_uint32_bool 95 True) (7 # encode_uint32_bool 95 True)))))
        bob = Inr ([], [], [], [])
   \<and> \<not> needsUpdate (fst (exec toy_fhe one_rule
        (call_at bob 150 (PerformMatching 7 (encode_uint32_bool 95 True) (7 # encode_uint32_bool 95 True)))))
        bob"
proof -
  let ?x = "call_at bob 150 (PerformMatching 7 (encode_uint32_bool 95 True) (7 # encode_uint32_bool 95 True))"
  let ?s' = "fst (exec toy_fhe one_rule ?x)"
  have p: "performMatching toy_fhe one_rule bob 150 7 (encode_uint32_bool 95 True)
             (7 # encode_uint32_bool 95 True) = Inr (?s', [MatchProcessed bob])"
    using perform_toy [of one_rule bob 150 7 95 True] by (simp add: exec_call_at)
  have x: "snd (exec toy_fhe one_rule ?x) = Inr [MatchProcessed bob]"
    by (simp add: perform_one_rule)
  have lt: "ruleCount one_rule < max_uint256"
    by (simp add: one_rule_fields max_uint256_def)
  have u: "needsUpdate one_rule bob"
    by (simp add: needsUpdate_def one_rule_fields)
  from performMatching_moves_cursor [OF p]
  show ?thesis
    using lt x u by (simp add: one_rule_delta one_rule_fields)
qed

section \<open>Acknowledging a delta\<close>

lemma dispatch_cursor:
  assumes "dispatch fhe s b t c = Inr (s', acts)" and "\<not> is_PerformMatching c \<or> b \<noteq> a"
  shows "lastSyncTimestamps s' a = lastSyncTimestamps s a"
proof (cases c)
  case (AddFilteringRule d p r)
  with assms show ?thesis
    by (auto simp: addFilteringRule_def onlyMaintainer_def checked_add_def split: if_splits)
next
  case (UpdateFilteringRule i d p r)
  with assms show ?thesis
    by (auto simp: updateFilteringRule_def onlyMaintainer_def split: if_splits)
next
  case (RequestUrlMatching d p)
  with assms show ?thesis
    by (auto simp: requestUrlMatching_def split: sum.splits)
next
  case (PerformMatching r b p)
  with assms show ?thesis
    by (auto simp: performMatching_def split: if_splits sum.splits)
next
  case RequestDecisionDecryption
  with assms show ?thesis
    by (auto simp: requestDecisionDecryption_def store_def split: if_splits)
next
  case (DecryptDecision r b p)
  with assms show ?thesis
    by (auto simp: decryptDecision_def split: if_splits sum.splits)
qed

lemma exec_cursor:
  assumes "\<not> is_PerformMatching (tx_call x) \<or> tx_sender x \<noteq> a"
  shows "lastSyncTimestamps (fst (exec fhe s x)) a = lastSyncTimestamps s a"
proof (cases "dispatch fhe s (tx_sender x) (tx_timestamp x) (tx_call x)")
  case (Inl e)
  then show ?thesis by (simp add: exec_def)
next
  case (Inr r)
  obtain s' acts where r: "r = (s', acts)"
    by (cases r)
  from dispatch_cursor [of fhe s "tx_sender x" "tx_timestamp x" "tx_call x" s' acts a] Inr r assms
  show ?thesis
    by (simp add: exec_def)
qed

lemma dispatch_rule_stays:
  assumes "dispatch fhe s b t c = Inr (s', acts)"
    and "0 < timestamp (filteringRules s i)" and "0 < t"
  shows "0 < timestamp (filteringRules s' i)"
proof (cases c)
  case (AddFilteringRule d p r)
  with assms show ?thesis
    by (auto simp: addFilteringRule_def onlyMaintainer_def checked_add_def split: if_splits)
next
  case (UpdateFilteringRule i d p r)
  with assms show ?thesis
    by (auto simp: updateFilteringRule_def onlyMaintainer_def split: if_splits)
next
  case (RequestUrlMatching d p)
  with assms show ?thesis
    by (auto simp: requestUrlMatching_def split: sum.splits)
next
  case (PerformMatching r b p)
  with assms show ?thesis
    by (auto simp: performMatching_def split: if_splits sum.splits)
next
  case RequestDecisionDecryption
  with assms show ?thesis
    by (auto simp: requestDecisionDecryption_def store_def split: if_splits)
next
  case (DecryptDecision r b p)
  with assms show ?thesis
    by (auto simp: decryptDecision_def split: if_splits sum.splits)
qed

lemma exec_rule_stays:
  assumes "0 < timestamp (filteringRules s i)" and "0 < tx_timestamp x"
  shows "0 < timestamp (filteringRules (fst (exec fhe s x)) i)"
proof (cases "dispatch fhe s (tx_sender x) (tx_timestamp x) (tx_call x)")
  case (Inl e)
  with assms show ?thesis by (simp add: exec_def)
next
  case (Inr r)
  obtain s' acts where r: "r = (s', acts)"
    by (cases r)
  from dispatch_rule_stays [of fhe s "tx_sender x" "tx_timestamp x" "tx_call x" s' acts i] Inr r assms
  show ?thesis
    by (simp add: exec_def)
qed

lemma delta_nonempty:
  assumes "ruleCount s < max_uint256" "1 \<le> i" "i \<le> ruleCount s"
    and "lastSyncTimestamps s a < timestamp (filteringRules s i)"
  shows "getRuleUpdates s a \<noteq> Inr ([], [], [], [])"
proof -
  have "i \<in> set (filter (newer s a) (rule_ids s 1))"
    using assms by (simp add: rule_ids_def newer_def del: upt_Suc)
  then have "filter (newer s a) (rule_ids s 1) \<noteq> []"
    by (auto simp: filter_empty_conv)
  then show ?thesis
    by (simp add: getRuleUpdates_eq [OF assms(1)])
qed

lemma delta_empty:
  assumes "ruleCount s < max_uint256"
    and "\<forall>i \<in> {1..ruleCount s}. timestamp (filteringRules s i) \<le> lastSyncTimestamps s a"
  shows "getRuleUpdates s a = Inr ([], [], [], [])"
proof -
  have "\<not> newer s a i" if "i \<in> set (rule_ids s 1)" for i
  proof -
    from that have "i \<in> {1..ruleCount s}"
      by (simp add: rule_ids_def del: upt_Suc)
    with assms(2) have "timestamp (filteringRules s i) \<le> lastSyncTimestamps s a"
      by blast
    then show ?thesis
      by (simp add: newer_def)
  qed
  then have "filter (newer s a) (rule_ids s 1) = []"
    by (simp add: filter_empty_conv)
  then show ?thesis
    by (simp add: getRuleUpdates_eq [OF assms(1)])
qed

text \<open>
  The claim C5 as it is written fails: the contract has no operation that acknowledges
  a delta. With one rule in the ledger \<open>bob\<close> is delivered a delta of one rule; whatever
  he calls next, short of \<open>performMatching\<close>, the same question returns a delta that is
  not empty.
\<close>

theorem no_call_acknowledges:
  "getRuleUpdates one_rule bob = Inr ([11], [12], [13], [100])
   \<and> \<not> (\<exists>c. \<not> is_PerformMatching c
            \<and> getRuleUpdates (fst (exec toy_fhe one_rule (call_at bob 200 c))) bob
                = Inr ([], [], [], []))"
proof -
  have "getRuleUpdates (fst (exec toy_fhe one_rule (call_at bob 200 c))) bob \<noteq> Inr ([], [], [], [])"
    if c: "\<not> is_PerformMatching c" for c
  proof -
    let ?x = "call_at bob 200 c"
    let ?s' = "fst (exec toy_fhe one_rule ?x)"
    have n: "ruleCount ?s' = 1 \<or> ruleCount ?s' = 2"
      using exec_ruleCount [of toy_fhe one_rule ?x] by (auto simp: one_rule_fields)
    then have lt: "ruleCount ?s' < max_uint256"
      by (auto simp: max_uint256_def)
    have cur: "lastSyncTimestamps ?s' bob = 0"
      using exec_cursor [of ?x bob toy_fhe one_rule] c by (simp add: call_at_def one_rule_fields)
    have "0 < timestamp (filteringRules ?s' 1)"
      by (rule exec_rule_stays) (simp_all add: one_rule_fields call_at_def)
    then show ?thesis
      using n cur by (intro delta_nonempty [OF lt, of 1]) auto
  qed
  then show ?thesis
    by (auto simp: one_rule_delta)
qed

text \<open>
  Claim C5, amended. The contract has no \<open>acknowledge\<close>: \<open>getRuleUpdates\<close> is a view, and
  every transaction other than a \<open>performMatching\<close> sent by the client itself leaves the
  client's entry of \<open>lastSyncTimestamps\<close> as it was, so asking again re-delivers the
  delta. The one call that moves the cursor is a successful \<open>performMatching\<close> of the
  client, to the block time; when every stored rule carries a timestamp at or before
  that block time, a \<open>getRuleUpdates\<close> of the client on the resulting storage, with no
  ledger write in between, returns four empty arrays.
\<close>

theorem cursor_moves_only_in_performMatching:
  "(\<not> is_PerformMatching (tx_call x) \<or> tx_sender x \<noteq> a \<longrightarrow>
      lastSyncTimestamps (fst (exec fhe s x)) a = lastSyncTimestamps s a)
   \<and> (performMatching fhe s a t requestId results proof = Inr (s', acts)
        \<and> ruleCount s < max_uint256
        \<and> (\<forall>i \<in> {1..ruleCount s}. timestamp (filteringRules s i) \<le> t) \<longrightarrow>
      getRuleUpdates s' a = Inr ([], [], [], []))"
proof (intro conjI impI)
  assume "\<not> is_PerformMatching (tx_call x) \<or> tx_sender x \<noteq> a"
  then show "lastSyncTimestamps (fst (exec fhe s x)) a = lastSyncTimestamps s a"
    by (rule exec_cursor)
next
  assume h: "performMatching fhe s a t requestId results proof = Inr (s', acts)
        \<and> ruleCount s < max_uint256
        \<and> (\<forall>i \<in> {1..ruleCount s}. timestamp (filteringRules s i) \<le> t)"
  then have s': "s' = s \<lparr> matchResults := matchResults s',
                          lastSyncTimestamps := (lastSyncTimestamps s) (a := t) \<rparr>"
    by (auto simp: performMatching_def split: if_splits sum.splits)
  have f: "lastSyncTimestamps s' a = t" "ruleCount s' = ruleCount s"
    "filteringRules s' = filteringRules s"
    by (subst s', simp)+
  show "getRuleUpdates s' a = Inr ([], [], [], [])"
    using h by (intro delta_empty) (simp_all add: f)
qed

theorem cursor_moves_only_in_performMatching_witness:
  "\<not> is_PerformMatching (tx_call (call_at bob 200 (RequestUrlMatching (Euint32 1) (Euint32 2))))
   \<and> lastSyncTimestamps (fst (exec toy_fhe one_rule
        (call_at bob 200 (RequestUrlMatching (Euint32 1) (Euint32 2))))) bob
       = lastSyncTimestamps one_rule bob
   \<and> snd (exec toy_fhe one_rule
        (call_at bob 150 (PerformMatching 7 (encode_uint32_bool 95 True) (7 # encode_uint32_bool 95 True))))
       = Inr [MatchProcessed bob]
   \<and> ruleCount one_rule = 1
   \<and> timestamp (filteringRules one_rule 1) = 100
   \<and> getRuleUpdates (fst (exec toy_fhe one_rule
        (call_at bob 150 (PerformMatching 7 (encode_uint32_bool 95 True) (7 # encode_uint32_bool 95 True)))))
        bob = Inr ([], [], [], [])"
proof -
  let ?x = "call_at bob 150 (PerformMatching 7 (encode_uint32_bool 95 True) (7 # encode_uint32_bool 95 True))"
  let ?y = "call_at bob 200 (RequestUrlMatching (Euint32 1) (Euint32 2))"
  let ?s' = "fst (exec toy_fhe one_rule ?x)"
  have p: "performMatching toy_fhe one_rule bob 150 7 (encode_uint32_bool 95 True)
             (7 # encode_uint32_bool 95 True) = Inr (?s', [MatchProcessed bob])"
    using perform_toy [of one_rule bob 150 7 95 True] by (simp add: exec_call_at)
  have x: "snd (exec toy_fhe one_rule ?x) = Inr [MatchProcessed bob]"
    by (simp add: perform_one_rule)
  have lt: "ruleCount one_rule < max_uint256"
    by (simp add: one_rule_fields max_uint256_def)
  have y: "\<not> is_PerformMatching (tx_call ?y)"
    by (simp add: call_at_def)
  have old: "\<forall>i \<in> {1..ruleCount one_rule}. timestamp (filteringRules one_rule i) \<le> 150"
    by (simp add: one_rule_fields)
  from cursor_moves_only_in_performMatching
         [of ?y bob toy_fhe one_rule 150 7 "encode_uint32_bool 95 True" "7 # encode_uint32_bool 95 True"
             ?s' "[MatchProcessed bob]"]
  show ?thesis
    using p x lt y old by (simp add: one_rule_fields)
qed

section \<open>The bound on the number of rules\<close>

text \<open>
  The bound on \<open>ruleCount\<close> is sharp: with \<open>2^256 - 1\<close> rules the increment of the loop
  counter overflows in the last round of the first loop.
\<close>

lemma count_loop_overflow:
  assumes "max_uint256 \<le> ruleCount s" "i \<le> max_uint256" "c < i"
  shows "count_loop s a i c = Inl Panic"
  using assms
proof (induction k \<equiv> "max_uint256 - i" arbitrary: i c)
  case 0
  then have i: "i = max_uint256" by simp
  with 0 show ?case
    by (subst count_loop.simps) (simp add: checked_add_def)
next
  case (Suc k)
  then have lt: "i < max_uint256" by simp
  have ile: "i \<le> ruleCount s" using lt Suc.prems(1) by simp
  have nxt: "count_loop s a (i + 1) c' = Inl Panic" if "c' \<le> c + 1" for c'
    using Suc.hyps(2) Suc.prems lt that by (intro Suc.hyps(1)) simp_all
  show ?case
    using ile lt Suc.prems(3) nxt [of c] nxt [of "c + 1"]
    by (subst count_loop.simps) (simp add: checked_add_def)
qed

lemma getRuleUpdates_overflow:
  "max_uint256 \<le> ruleCount s \<Longrightarrow> getRuleUpdates s a = Inl Panic"
  using count_loop_overflow [of s 1 0 a] by (simp add: getRuleUpdates_def max_uint256_def)

section \<open>The ledger is never ahead of the clock\<close>

text \<open>
  Block times do not decrease. When the transactions of a run carry non-decreasing
  times, no stored timestamp is later than the time of the last transaction.
\<close>

lemma ledger_upto_mono: "ledger_upto s T \<Longrightarrow> T \<le> T' \<Longrightarrow> ledger_upto s T'"
  unfolding ledger_upto_def using le_trans by blast

lemma dispatch_ledger_upto:
  assumes "dispatch fhe s b t c = Inr (s', acts)" and "ledger_upto s T" and "T \<le> t"
  shows "ledger_upto s' t"
proof -
  have up: "ledger_upto s t"
    using assms(2,3) by (rule ledger_upto_mono)
  show ?thesis
  proof (cases c)
    case (AddFilteringRule d p r)
    with assms(1) up show ?thesis
      by (auto simp: ledger_upto_def addFilteringRule_def onlyMaintainer_def checked_add_def
               split: if_splits)
  next
    case (UpdateFilteringRule i d p r)
    with assms(1) up show ?thesis
      by (auto simp: ledger_upto_def updateFilteringRule_def onlyMaintainer_def split: if_splits)
  next
    case (RequestUrlMatching d p)
    with assms(1) up show ?thesis
      by (auto simp: ledger_upto_def requestUrlMatching_def split: sum.splits)
  next
    case (PerformMatching r b p)
    with assms(1) up show ?thesis
      by (auto simp: ledger_upto_def performMatching_def split: if_splits sum.splits)
  next
    case RequestDecisionDecryption
    with assms(1) up show ?thesis
      by (auto simp: ledger_upto_def requestDecisionDecryption_def store_def split: if_splits)
  next
    case (DecryptDecision r b p)
    with assms(1) up show ?thesis
      by (auto simp: ledger_upto_def decryptDecision_def split: if_splits sum.splits)
  qed
qed

lemma exec_ledger_upto:
  assumes "ledger_upto s T" and "T \<le> tx_timestamp x"
  shows "ledger_upto (fst (exec fhe s x)) (tx_timestamp x)"
proof (cases "dispatch fhe s (tx_sender x) (tx_timestamp x) (tx_call x)")
  case (Inl e)
  with assms show ?thesis
    by (simp add: exec_def ledger_upto_mono)
next
  case (Inr r)
  obtain s' acts where r: "r = (s', acts)"
    by (cases r)
  from dispatch_ledger_upto [of fhe s "tx_sender x" "tx_timestamp x" "tx_call x" s' acts T] Inr r assms
  show ?thesis
    by (simp add: exec_def)
qed

lemma run_ledger_upto:
  assumes "sorted (T # map tx_timestamp xs)" and "ledger_upto s T"
  shows "ledger_upto (fst (run fhe s xs)) (last (T # map tx_timestamp xs))"
  using assms
proof (induction xs arbitrary: s T)
  case Nil
  then show ?case by simp
next
  case (Cons x xs)
  have run: "fst (run fhe s (x # xs)) = fst (run fhe (fst (exec fhe s x)) xs)"
    by (simp split: prod.splits)
  have "ledger_upto (fst (exec fhe s x)) (tx_timestamp x)"
    using Cons.prems by (intro exec_ledger_upto [of s T]) simp_all
  moreover have "sorted (tx_timestamp x # map tx_timestamp xs)"
    using Cons.prems(1) by simp
  ultimately have "ledger_upto (fst (run fhe (fst (exec fhe s x)) xs))
                     (last (tx_timestamp x # map tx_timestamp xs))"
    by (intro Cons.IH)
  then show ?case
    unfolding run by simp
qed

lemma deployed_upto: "ledger_upto deployed 0"
  by (simp add: ledger_upto_def deployed_def)

text \<open>
  So on every storage the contract can reach, a successful \<open>performMatching\<close> at the
  current block time leaves its caller with nothing to fetch.
\<close>

lemma nothing_to_fetch_after_match:
  assumes "sorted (map tx_timestamp xs @ [t])"
    and "performMatching fhe (fst (run fhe deployed xs)) a t requestId results proof = Inr (s', acts)"
    and "ruleCount (fst (run fhe deployed xs)) < max_uint256"
  shows "getRuleUpdates s' a = Inr ([], [], [], []) \<and> \<not> needsUpdate s' a"
proof -
  let ?s = "fst (run fhe deployed xs)"
  have "sorted (0 # map tx_timestamp xs)"
    using assms(1) by (simp add: sorted_append)
  then have "ledger_upto ?s (last (0 # map tx_timestamp xs))"
    using deployed_upto by (rule run_ledger_upto)
  moreover have "last (0 # map tx_timestamp xs) \<le> t"
    using assms(1) by (cases xs rule: rev_cases) (simp_all add: sorted_append)
  ultimately have up: "ledger_upto ?s t"
    by (rule ledger_upto_mono)
  from assms(2) have s': "s' = ?s \<lparr> matchResults := matchResults s',
                               lastSyncTimestamps := (lastSyncTimestamps ?s) (a := t) \<rparr>"
    by (auto simp: performMatching_def split: if_splits sum.splits)
  have f: "lastSyncTimestamps s' a = t" "ruleCount s' = ruleCount ?s"
    "filteringRules s' = filteringRules ?s" "lastUpdateTimestamp s' = lastUpdateTimestamp ?s"
    by (subst s', simp)+
  have "getRuleUpdates s' a = Inr ([], [], [], [])"
    using up assms(3) by (intro delta_empty) (simp_all add: f ledger_upto_def)
  moreover have "\<not> needsUpdate s' a"
    using up by (simp add: needsUpdate_def f ledger_upto_def)
  ultimately show ?thesis
    by simp
qed

section \<open>Where the rules are stored\<close>

lemma addFilteringRule_writes_new_id:
  assumes "addFilteringRule s a t d p r = Inr (s', acts)"
  shows "ruleCount s' = Suc (ruleCount s) \<and> acts = [RuleAdded (Suc (ruleCount s)) t]
       \<and> filteringRules s' = (filteringRules s)
            (Suc (ruleCount s) := \<lparr> encryptedDomainPattern = d, encryptedPathPattern = p,
                                     encryptedRuleType = r, timestamp = t \<rparr>)"
  using assms
  by (auto simp: addFilteringRule_def onlyMaintainer_def checked_add_def split: if_splits)

lemma dispatch_empty_outside:
  assumes "dispatch fhe s b t c = Inr (s', acts)" and "empty_outside s"
  shows "empty_outside s'"
proof (cases c)
  case (AddFilteringRule d p r)
  with assms show ?thesis
    by (auto simp: empty_outside_def addFilteringRule_def onlyMaintainer_def checked_add_def
             split: if_splits)
next
  case (UpdateFilteringRule i d p r)
  have z: "timestamp (filteringRules deployed j) = 0" for j
    by (simp add: deployed_def)
  from UpdateFilteringRule assms have ok: "0 < timestamp (filteringRules s i)"
    and s': "s' = s \<lparr> filteringRules := (filteringRules s)
                     (i := (filteringRules s i)
                        \<lparr> encryptedDomainPattern := d, encryptedPathPattern := p,
                          encryptedRuleType := r, timestamp := t \<rparr>),
                   lastUpdateTimestamp := t \<rparr>"
    by (auto simp: updateFilteringRule_def onlyMaintainer_def split: if_splits)
  have "filteringRules s' j = filteringRules deployed j" if j: "j = 0 \<or> ruleCount s' < j" for j
  proof -
    from j have j': "j = 0 \<or> ruleCount s < j"
      by (subst (asm) s') simp
    with assms(2) have e: "filteringRules s j = filteringRules deployed j"
      unfolding empty_outside_def by blast
    with ok z [of j] have "j \<noteq> i"
      by auto
    then show ?thesis
      using e by (subst s') simp
  qed
  then show ?thesis
    by (simp add: empty_outside_def)
next
  case (RequestUrlMatching d p)
  with assms show ?thesis
    by (auto simp: empty_outside_def requestUrlMatching_def split: sum.splits)
next
  case (PerformMatching r b p)
  with assms show ?thesis
    by (auto simp: empty_outside_def performMatching_def split: if_splits sum.splits)
next
  case RequestDecisionDecryption
  with assms show ?thesis
    by (auto simp: empty_outside_def requestDecisionDecryption_def store_def split: if_splits)
next
  case (DecryptDecision r b p)
  with assms show ?thesis
    by (auto simp: empty_outside_def decryptDecision_def split: if_splits sum.splits)
qed

lemma exec_empty_outside:
  assumes "empty_outside s"
  shows "empty_outside (fst (exec fhe s x))"
proof (cases "dispatch fhe s (tx_sender x) (tx_timestamp x) (tx_call x)")
  case (Inl e)
  with assms show ?thesis by (simp add: exec_def)
next
  case (Inr r)
  obtain s' acts where r: "r = (s', acts)"
    by (cases r)
  from dispatch_empty_outside [of fhe s "tx_sender x" "tx_timestamp x" "tx_call x" s' acts] Inr r assms
  show ?thesis
    by (simp add: exec_def)
qed

lemma run_empty_outside:
  "empty_outside s \<Longrightarrow> empty_outside (fst (run fhe s xs))"
proof (induction xs arbitrary: s)
  case Nil
  then show ?case by simp
next
  case (Cons x xs)
  have run: "fst (run fhe s (x # xs)) = fst (run fhe (fst (exec fhe s x)) xs)"
    by (simp split: prod.splits)
  show ?case
    unfolding run using Cons.prems by (intro Cons.IH exec_empty_outside)
qed

lemma dispatch_new_rule_stamped:
  assumes "dispatch fhe s b t c = Inr (s', acts)" and "ruleCount s' \<noteq> ruleCount s"
  shows "ruleCount s' = Suc (ruleCount s) \<and> timestamp (filteringRules s' (Suc (ruleCount s))) = t"
proof (cases c)
  case (AddFilteringRule d p r)
  with assms show ?thesis
    by (auto simp: addFilteringRule_def onlyMaintainer_def checked_add_def split: if_splits)
next
  case (UpdateFilteringRule i d p r)
  with assms show ?thesis
    by (auto simp: updateFilteringRule_def onlyMaintainer_def split: if_splits)
next
  case (RequestUrlMatching d p)
  with assms show ?thesis
    by (auto simp: requestUrlMatching_def split: sum.splits)
next
  case (PerformMatching r b p)
  with assms show ?thesis
    by (auto simp: performMatching_def split: if_splits sum.splits)
next
  case RequestDecisionDecryption
  with assms show ?thesis
    by (auto simp: requestDecisionDecryption_def store_def split: if_splits)
next
  case (DecryptDecision r b p)
  with assms show ?thesis
    by (auto simp: decryptDecision_def split: if_splits sum.splits)
qed

lemma exec_occupied_inside:
  assumes "occupied_inside s" and "0 < tx_timestamp x"
  shows "occupied_inside (fst (exec fhe s x))"
proof -
  let ?s' = "fst (exec fhe s x)"
  have "0 < timestamp (filteringRules ?s' j)" if j: "j \<in> {1..ruleCount ?s'}" for j
  proof (cases "j \<le> ruleCount s")
    case True
    with j assms(1) have "0 < timestamp (filteringRules s j)"
      by (simp add: occupied_inside_def)
    then show ?thesis
      using assms(2) by (rule exec_rule_stays)
  next
    case False
    with j have ne: "ruleCount ?s' \<noteq> ruleCount s"
      by auto
    then obtain s' acts where d: "dispatch fhe s (tx_sender x) (tx_timestamp x) (tx_call x) = Inr (s', acts)"
      by (cases "dispatch fhe s (tx_sender x) (tx_timestamp x) (tx_call x)") (auto simp: exec_def)
    then have s': "?s' = s'"
      by (simp add: exec_def)
    from dispatch_new_rule_stamped [OF d] ne s'
    have "ruleCount s' = Suc (ruleCount s)"
      and "timestamp (filteringRules s' (Suc (ruleCount s))) = tx_timestamp x"
      by simp_all
    with False j s' assms(2) show ?thesis
      by (cases "j = Suc (ruleCount s)") simp_all
  qed
  then show ?thesis
    by (simp add: occupied_inside_def)
qed

lemma run_occupied_inside:
  "occupied_inside s \<Longrightarrow> \<forall>x \<in> set xs. 0 < tx_timestamp x \<Longrightarrow> occupied_inside (fst (run fhe s xs))"
proof (induction xs arbitrary: s)
  case Nil
  then show ?case by simp
next
  case (Cons x xs)
  have run: "fst (run fhe s (x # xs)) = fst (run fhe (fst (exec fhe s x)) xs)"
    by (simp split: prod.splits)
  show ?case
    unfolding run using Cons.prems by (intro Cons.IH exec_occupied_inside) simp_all
qed

lemma deployed_empty_outside: "empty_outside deployed"
  by (simp add: empty_outside_def)

lemma deployed_occupied_inside: "occupied_inside deployed"
  by (simp add: occupied_inside_def deployed_def)

text \<open>
  Claim C7. Run any transactions on the freshly deployed contract, and let N be the
  number of calls of \<open>addFilteringRule\<close> among them that succeeded. Then \<open>ruleCount\<close> is
  N and the ids handed out, in the order of the calls, are 1, 2, ..., N: dense,
  increasing, starting at 1, none used twice. The ids are the keys of the stored rules:
  a successful \<open>addFilteringRule\<close> hands out \<open>ruleCount + 1\<close>, stores its rule under
  that key and writes no other key; after the run the keys outside 1 .. N hold the zero
  rule, and the keys 1 .. N each hold a rule with a timestamp when block times are
  positive. A call of \<open>updateFilteringRule\<close>, accepted or not, leaves \<open>ruleCount\<close> as
  it is, hands out no id, and leaves every rule but the one it names untouched.
\<close>

theorem rule_ids_dense:
  "ruleCount (fst (run fhe deployed xs)) = length (filter successful_add (snd (run fhe deployed xs)))
   \<and> assigned_ids (snd (run fhe deployed xs))
       = [1..<Suc (length (filter successful_add (snd (run fhe deployed xs))))]
   \<and> ruleCount (fst (exec fhe s (call_at a t (UpdateFilteringRule i d p r)))) = ruleCount s
   \<and> receipt_ids (snd (exec fhe s (call_at a t (UpdateFilteringRule i d p r)))) = []
   \<and> (\<forall>j. j \<noteq> i \<longrightarrow>
         filteringRules (fst (exec fhe s (call_at a t (UpdateFilteringRule i d p r)))) j
           = filteringRules s j)
   \<and> (addFilteringRule s a t d p r = Inr (s', acts) \<longrightarrow>
         ruleCount s' = Suc (ruleCount s) \<and> acts = [RuleAdded (Suc (ruleCount s)) t]
       \<and> filteringRules s' = (filteringRules s)
            (Suc (ruleCount s) := \<lparr> encryptedDomainPattern = d, encryptedPathPattern = p,
                                     encryptedRuleType = r, timestamp = t \<rparr>))
   \<and> (\<forall>j. j = 0 \<or> length (filter successful_add (snd (run fhe deployed xs))) < j \<longrightarrow>
         filteringRules (fst (run fhe deployed xs)) j = filteringRules deployed j)
   \<and> ((\<forall>x \<in> set xs. 0 < tx_timestamp x) \<longrightarrow>
        (\<forall>j \<in> {1..length (filter successful_add (snd (run fhe deployed xs)))}.
            0 < timestamp (filteringRules (fst (run fhe deployed xs)) j)))"
proof -
  let ?s = "fst (run fhe deployed xs)"
  let ?N = "length (filter successful_add (snd (run fhe deployed xs)))"
  have z: "ruleCount deployed = 0"
    by (simp add: deployed_def)
  have n: "ruleCount ?s = ?N"
    using run_ruleCount [of fhe deployed xs] by (simp add: z)
  have ids: "assigned_ids (snd (run fhe deployed xs)) = [1..<Suc ?N]"
    using run_ruleCount [of fhe deployed xs] by (simp add: z)
  have "\<not> successful_add (call_at a t (UpdateFilteringRule i d p r), e)" for e
    by (simp add: successful_add_def call_at_def)
  with exec_ruleCount [of fhe s "call_at a t (UpdateFilteringRule i d p r)"]
  have u: "ruleCount (fst (exec fhe s (call_at a t (UpdateFilteringRule i d p r)))) = ruleCount s"
         "receipt_ids (snd (exec fhe s (call_at a t (UpdateFilteringRule i d p r)))) = []"
    by simp_all
  have f: "\<forall>j. j \<noteq> i \<longrightarrow>
         filteringRules (fst (exec fhe s (call_at a t (UpdateFilteringRule i d p r)))) j
           = filteringRules s j"
    by (simp add: exec_call_at updateFilteringRule_def onlyMaintainer_def)
  have ad: "addFilteringRule s a t d p r = Inr (s', acts) \<longrightarrow>
         ruleCount s' = Suc (ruleCount s) \<and> acts = [RuleAdded (Suc (ruleCount s)) t]
       \<and> filteringRules s' = (filteringRules s)
            (Suc (ruleCount s) := \<lparr> encryptedDomainPattern = d, encryptedPathPattern = p,
                                     encryptedRuleType = r, timestamp = t \<rparr>)"
    using addFilteringRule_writes_new_id [of s a t d p r s' acts] by blast
  have "empty_outside ?s"
    using deployed_empty_outside by (rule run_empty_outside)
  then have out: "\<forall>j. j = 0 \<or> ?N < j \<longrightarrow> filteringRules ?s j = filteringRules deployed j"
    unfolding empty_outside_def n .
  have ins: "(\<forall>x \<in> set xs. 0 < tx_timestamp x) \<longrightarrow>
        (\<forall>j \<in> {1..?N}. 0 < timestamp (filteringRules ?s j))"
  proof
    assume "\<forall>x \<in> set xs. 0 < tx_timestamp x"
    with deployed_occupied_inside have "occupied_inside ?s"
      by (rule run_occupied_inside)
    then show "\<forall>j \<in> {1..?N}. 0 < timestamp (filteringRules ?s j)"
      unfolding occupied_inside_def n .
  qed
  from n ids u f ad out ins show ?thesis
    by (intro conjI)
qed


theorem rule_ids_dense_witness:
  "map snd (snd (run toy_fhe deployed ledger_history)) =
     [Inr [RuleAdded 1 100], Inr [RuleUpdated 1], Inr [RuleAdded 2 120], Inl NotFound,
      Inr [RuleAdded 3 140]]
   \<and> length (filter successful_add (snd (run toy_fhe deployed ledger_history))) = 3
   \<and> ruleCount (fst (run toy_fhe deployed ledger_history)) = 3
   \<and> assigned_ids (snd (run toy_fhe deployed ledger_history)) = [1, 2, 3]
   \<and> ruleCount (fst (exec toy_fhe one_rule
        (call_at bob 110 (UpdateFilteringRule 1 (Euint32 14) (Euint32 15) (Euint32 16))))) = 1
   \<and> filteringRules (fst (exec toy_fhe one_rule
        (call_at bob 110 (UpdateFilteringRule 1 (Euint32 14) (Euint32 15) (Euint32 16))))) 2
       = filteringRules one_rule 2
   \<and> snd (exec toy_fhe one_rule
        (call_at bob 110 (AddFilteringRule (Euint32 14) (Euint32 15) (Euint32 16))))
       = Inr [RuleAdded 2 110]
   \<and> filteringRules (fst (exec toy_fhe one_rule
        (call_at bob 110 (AddFilteringRule (Euint32 14) (Euint32 15) (Euint32 16)))))
       = (filteringRules one_rule)
           (2 := \<lparr> encryptedDomainPattern = Euint32 14, encryptedPathPattern = Euint32 15,
                   encryptedRuleType = Euint32 16, timestamp = 110 \<rparr>)
   \<and> map tx_timestamp ledger_history = [100, 110, 120, 130, 140]
   \<and> map (\<lambda>j. 0 < timestamp (filteringRules (fst (run toy_fhe deployed ledger_history)) j))
        [0, 1, 2, 3, 4] = [False, True, True, True, False]
   \<and> filteringRules (fst (run toy_fhe deployed ledger_history)) 4 = filteringRules deployed 4"
proof -
  let ?x = "call_at bob 110 (AddFilteringRule (Euint32 14) (Euint32 15) (Euint32 16))"
  let ?s' = "fst (exec toy_fhe one_rule ?x)"
  have n: "length (filter successful_add (snd (run toy_fhe deployed ledger_history))) = 3"
    by (simp add: ledger_history_def exec_def addFilteringRule_def updateFilteringRule_def
        onlyMaintainer_def checked_add_def max_uint256_def deployed_def successful_add_def call_at_def)
  have o: "ruleCount one_rule = 1"
    by (simp add: one_rule_eq)
  have ad: "addFilteringRule one_rule bob 110 (Euint32 14) (Euint32 15) (Euint32 16)
              = Inr (?s', [RuleAdded 2 110])"
    by (simp add: exec_call_at addFilteringRule_def onlyMaintainer_def checked_add_def
          max_uint256_def o)
  have x: "snd (exec toy_fhe one_rule ?x) = Inr [RuleAdded 2 110]"
    by (simp add: exec_call_at addFilteringRule_def onlyMaintainer_def checked_add_def
          max_uint256_def o)
  have ts: "map tx_timestamp ledger_history = [100, 110, 120, 130, 140]"
    by (simp add: ledger_history_def call_at_def)
  then have pos: "\<forall>x \<in> set ledger_history. 0 < tx_timestamp x"
    by (simp add: ledger_history_def call_at_def)
  have s2: "Suc (Suc 0) = 2"
    by simp
  have z: "timestamp (filteringRules deployed j) = 0" for j
    by (simp add: deployed_def)
  from rule_ids_dense [of toy_fhe ledger_history one_rule bob 110 1 "Euint32 14" "Euint32 15" "Euint32 16"
                          ?s' "[RuleAdded 2 110]"]
  show ?thesis
    unfolding n using o ad x ts pos ledger_history_receipts
    by (simp add: upt_conv_Cons s2 z del: upt_Suc)
qed


section \<open>Whose match result a callback marks\<close>







end
